theory Spec2Isabelle
  imports Main
begin

section \<open>Library functions the converter calls\<close>

text \<open>
  The converter is a Python script. Text is modelled as \<^typ>\<open>string\<close> (a list of 8-bit
  characters, read as the UTF-8 bytes of the Python string), Python integers as
  \<^typ>\<open>int\<close>. The library functions below are modelled on the input the script gives
  them; the comment of each names what is left out.
\<close>

subsection \<open>Strings\<close>

definition lower_char :: "char \<Rightarrow> char" where
  \<comment> \<open>\<open>str.lower\<close> on one ASCII character; other bytes are kept (they never take part in
      the comparison with \<open>.png\<close>, \<open>.jpg\<close>, \<open>.jpeg\<close>).\<close>
  "lower_char c =
     (let n = (of_char c :: nat) in if 65 \<le> n \<and> n \<le> 90 then char_of (n + 32) else c)"

definition lower :: "string \<Rightarrow> string" where
  "lower s = map lower_char s"

definition endswith :: "string \<Rightarrow> string \<Rightarrow> bool" where
  "endswith s suf = (length suf \<le> length s \<and> drop (length s - length suf) s = suf)"

fun endswith_any :: "string \<Rightarrow> string list \<Rightarrow> bool" where
  \<comment> \<open>\<open>str.endswith\<close> with a tuple of suffixes.\<close>
  "endswith_any s [] = False"
| "endswith_any s (suf # sufs) = (if endswith s suf then True else endswith_any s sufs)"

fun join_str :: "string \<Rightarrow> string list \<Rightarrow> string" where
  \<comment> \<open>\<open>sep.join(xs)\<close>\<close>
  "join_str sep [] = []"
| "join_str sep [x] = x"
| "join_str sep (x # y # ys) = x @ sep @ join_str sep (y # ys)"

subsection \<open>os.path (POSIX)\<close>

definition rfind :: "char \<Rightarrow> string \<Rightarrow> int" where
  \<comment> \<open>\<open>p.rfind(c)\<close>: the highest index of \<open>c\<close>, or \<open>-1\<close>.\<close>
  "rfind c p =
     (if c \<in> set p then int (length p) - 1 - int (length (takeWhile (\<lambda>x. x \<noteq> c) (rev p)))
      else - 1)"

fun has_non_dot :: "string \<Rightarrow> bool" where
  \<comment> \<open>the \<open>while\<close> loop of \<open>genericpath._splitext\<close> that skips leading dots\<close>
  "has_non_dot [] = False"
| "has_non_dot (c # cs) = (if c \<noteq> CHR ''.'' then True else has_non_dot cs)"

definition splitext :: "string \<Rightarrow> string \<times> string" where
  "splitext p =
     (let sepIndex = rfind CHR ''/'' p;
          dotIndex = rfind CHR ''.'' p
      in if dotIndex > sepIndex \<and>
            has_non_dot (take (nat (dotIndex - (sepIndex + 1))) (drop (nat (sepIndex + 1)) p))
         then (take (nat dotIndex) p, drop (nat dotIndex) p)
         else (p, []))"

definition path_join :: "string \<Rightarrow> string \<Rightarrow> string" where
  \<comment> \<open>\<open>os.path.join(a, b)\<close>; with three arguments it is applied from the left.\<close>
  "path_join a b =
     (if b \<noteq> [] \<and> hd b = CHR ''/'' then b
      else if a = [] \<or> last a = CHR ''/'' then a @ b
      else a @ ''/'' @ b)"

subsection \<open>int() and str() on decimal text\<close>

text \<open>
  The builtin \<open>int\<close> is a parameter of the model, \<open>to_int\<close>: \<open>to_int s\<close> is \<open>Some i\<close>
  when \<open>int(s)\<close> returns \<open>i\<close> and \<open>None\<close> when it raises ValueError. Nothing is assumed
  of it: which digits and white space outside ASCII it accepts and how many digits it
  allows depend on the interpreter. The function \<open>ascii_int\<close> below is its reading of
  ASCII decimal text.
\<close>

definition is_space :: "char \<Rightarrow> bool" where
  \<comment> \<open>the ASCII characters that \<open>int()\<close> strips\<close>
  "is_space c = (let n = (of_char c :: nat) in (9 \<le> n \<and> n \<le> 13) \<or> (28 \<le> n \<and> n \<le> 32))"

definition strip :: "string \<Rightarrow> string" where
  "strip s = rev (dropWhile is_space (rev (dropWhile is_space s)))"

definition is_digit :: "char \<Rightarrow> bool" where
  "is_digit c = (let n = (of_char c :: nat) in 48 \<le> n \<and> n \<le> 57)"

definition digit_val :: "char \<Rightarrow> nat" where
  "digit_val c = of_char c - 48"

fun digits_acc :: "nat \<Rightarrow> string \<Rightarrow> nat option" where
  \<comment> \<open>the digits after the first one; a single underscore may stand between two digits\<close>
  "digits_acc acc [] = Some acc"
| "digits_acc acc (c # cs) =
     (if is_digit c then digits_acc (10 * acc + digit_val c) cs
      else if c = CHR ''_'' then
        (case cs of
           [] \<Rightarrow> None
         | d # ds \<Rightarrow> if is_digit d then digits_acc (10 * acc + digit_val d) ds else None)
      else None)"

definition py_digits :: "string \<Rightarrow> nat option" where
  "py_digits s =
     (case s of [] \<Rightarrow> None
      | c # cs \<Rightarrow> if is_digit c then digits_acc (digit_val c) cs else None)"

definition ascii_int :: "string \<Rightarrow> int option" where
  \<comment> \<open>what \<open>int(s)\<close> returns on ASCII decimal text, \<open>None\<close> where it raises
      ValueError there: the reading of \<open>int\<close> used for the example inputs and for reading
      back what \<open>str\<close> produced\<close>
  "ascii_int s =
     (case strip s of [] \<Rightarrow> None
      | c # cs \<Rightarrow>
          if c = CHR ''-'' then map_option (\<lambda>n. - int n) (py_digits cs)
          else if c = CHR ''+'' then map_option int (py_digits cs)
          else map_option int (py_digits (c # cs)))"

definition digit_char :: "nat \<Rightarrow> char" where
  "digit_char d = char_of (48 + d)"

fun str_nat :: "nat \<Rightarrow> string" where
  "str_nat n = (if n < 10 then [digit_char n] else str_nat (n div 10) @ [digit_char (n mod 10)])"

declare str_nat.simps [simp del]

definition py_str :: "int \<Rightarrow> string" where
  \<comment> \<open>\<open>str(i)\<close> for an integer\<close>
  "py_str i = (if i < 0 then CHR ''-'' # str_nat (nat (- i)) else str_nat (nat i))"

section \<open>Data model\<close>

subsection \<open>XML element trees\<close>

text \<open>
  An element as \<open>xml.etree.ElementTree\<close> gives it to the script: a tag, the text before
  the first child (\<open>None\<close> when the element has none) and the children in document
  order. Attributes and tails are never read by the script.
\<close>

datatype elem = Elem (tag: string) (etext: "string option") (children: "elem list")

definition findall :: "string \<Rightarrow> elem \<Rightarrow> elem list" where
  \<comment> \<open>\<open>e.findall(t)\<close> for a plain tag: the direct children with that tag\<close>
  "findall t e = filter (\<lambda>c. tag c = t) (children e)"

fun iterfind :: "string list \<Rightarrow> elem \<Rightarrow> elem list" where
  \<comment> \<open>the matches of a path of plain tags, \<open>a/b\<close> given as \<open>[a, b]\<close>, in document order\<close>
  "iterfind [] e = [e]"
| "iterfind (t # ts) e = concat (map (iterfind ts) (findall t e))"

definition find_path :: "string list \<Rightarrow> elem \<Rightarrow> elem option" where
  \<comment> \<open>\<open>e.find(path)\<close>: the first match, or \<open>None\<close>\<close>
  "find_path p e = (case iterfind p e of [] \<Rightarrow> None | c # _ \<Rightarrow> Some c)"

definition add_child :: "elem \<Rightarrow> elem \<Rightarrow> elem" where
  "add_child parent c = Elem (tag parent) (etext parent) (children parent @ [c])"

definition leaf :: "string \<Rightarrow> string \<Rightarrow> elem" where
  \<comment> \<open>\<open>ET.SubElement(parent, t).text = s\<close>, the element that is appended\<close>
  "leaf t s = Elem t (Some s) []"

subsection \<open>Parsed annotations\<close>

record bndbox =
  x1 :: int
  y1 :: int
  x2 :: int
  y2 :: int

record obj_info =
  name :: "string option"
  bndbox :: bndbox

subsection \<open>The COCO document\<close>

record category =
  c_id :: int
  c_name :: string
  c_supercategory :: string

record image_info =
  i_id :: int
  i_file_name :: string
  i_width :: int
  i_height :: int
  i_date_captured :: string
  i_license :: int
  i_coco_url :: string
  i_flickr_url :: string

record annotation =
  a_id :: int
  a_image_id :: int
  a_category_id :: int
  a_bbox :: "int list"
  a_area :: int
  a_iscrowd :: int
  a_segmentation :: "int list"

record coco =
  coco_info :: "(string \<times> string) list"
  coco_licenses :: "string list"
  coco_categories :: "category list"
  coco_images :: "image_info list"
  coco_annotations :: "annotation list"

subsection \<open>Errors and the file system\<close>

datatype error =
    OSError string
  | FileNotFoundError string
  | UnidentifiedImageError string
  | ParseError string
  | AttributeError
  | TypeError
  | ValueError string
  | KeyError "string option"

text \<open>
  A file is what a read of it yields: the size \<open>PIL.Image.open\<close> reports, the tree
  \<open>ET.parse\<close> returns, or text that is neither. The script's own output is stored by its
  structure (the element tree, the joined lines, the COCO document); the serialisers
  (\<open>minidom\<close>, \<open>json.dump\<close>), the creation of directories and the writes themselves
  are taken to succeed. A document the VOC exporter wrote reads back as the tree it was
  built from: the white space the pretty-printer adds is text of elements whose text the
  parser never looks at. Reads and writes share one file system, so a file written early
  in a run is what a later read of the same path sees.
\<close>

datatype file_content =
    ImageFile int int
  | XmlFile elem
  | TextFile string
  | JsonFile coco

record filesystem =
  dirs :: "string \<Rightarrow> string list option"
  files :: "string \<Rightarrow> file_content option"

definition os_listdir :: "filesystem \<Rightarrow> string \<Rightarrow> error + string list" where
  "os_listdir fs d = (case dirs fs d of None \<Rightarrow> Inl (OSError d) | Some l \<Rightarrow> Inr l)"

definition image_size :: "filesystem \<Rightarrow> string \<Rightarrow> error + int \<times> int" where
  \<comment> \<open>\<open>with Image.open(p) as img: width, height = img.size\<close>\<close>
  "image_size fs p =
     (case files fs p of
        None \<Rightarrow> Inl (FileNotFoundError p)
      | Some (ImageFile w h) \<Rightarrow> Inr (w, h)
      | Some _ \<Rightarrow> Inl (UnidentifiedImageError p))"

definition ET_parse :: "filesystem \<Rightarrow> string \<Rightarrow> error + elem" where
  \<comment> \<open>\<open>ET.parse(p).getroot()\<close>\<close>
  "ET_parse fs p =
     (case files fs p of
        None \<Rightarrow> Inl (FileNotFoundError p)
      | Some (XmlFile root) \<Rightarrow> Inr root
      | Some _ \<Rightarrow> Inl (ParseError p))"

definition write_file :: "filesystem \<Rightarrow> string \<Rightarrow> file_content \<Rightarrow> filesystem" where
  \<comment> \<open>\<open>with open(p, 'w') as f: f.write(...)\<close>: creates or overwrites\<close>
  "write_file fs p c = fs\<lparr>files := (files fs)(p \<mapsto> c)\<rparr>"

section \<open>The annotation parser\<close>

definition int_field :: "(string \<Rightarrow> int option) \<Rightarrow> string list \<Rightarrow> elem \<Rightarrow> error + int" where
  \<comment> \<open>\<open>int(obj.find(path).text)\<close>, with \<open>to_int\<close> for the builtin \<open>int\<close>\<close>
  "int_field to_int path obj =
     (case find_path path obj of
        None \<Rightarrow> Inl AttributeError
      | Some e \<Rightarrow>
          (case etext e of
             None \<Rightarrow> Inl TypeError
           | Some s \<Rightarrow> (case to_int s of None \<Rightarrow> Inl (ValueError s) | Some i \<Rightarrow> Inr i)))"

definition object_info :: "(string \<Rightarrow> int option) \<Rightarrow> elem \<Rightarrow> error + obj_info" where
  \<comment> \<open>the dictionary \<open>obj_info\<close> of one \<open>object\<close> node; the fields are read in the
      order name, x1, y1, x2, y2\<close>
  "object_info to_int obj =
     (case find_path [''name''] obj of
        None \<Rightarrow> Inl AttributeError
      | Some n \<Rightarrow>
     (case int_field to_int [''bndbox'', ''x1''] obj of Inl e \<Rightarrow> Inl e | Inr vx1 \<Rightarrow>
     (case int_field to_int [''bndbox'', ''y1''] obj of Inl e \<Rightarrow> Inl e | Inr vy1 \<Rightarrow>
     (case int_field to_int [''bndbox'', ''x2''] obj of Inl e \<Rightarrow> Inl e | Inr vx2 \<Rightarrow>
     (case int_field to_int [''bndbox'', ''y2''] obj of Inl e \<Rightarrow> Inl e | Inr vy2 \<Rightarrow>
        Inr \<lparr>name = etext n,
             bndbox = \<lparr>x1 = vx1, y1 = vy1, x2 = vx2, y2 = vy2\<rparr>\<rparr>)))))"

fun objects_loop :: "(string \<Rightarrow> int option) \<Rightarrow> elem list \<Rightarrow> obj_info list \<Rightarrow> error + obj_info list" where
  \<comment> \<open>\<open>for obj in root.findall('object'): ... annotations.append(obj_info)\<close>\<close>
  "objects_loop to_int [] annotations = Inr annotations"
| "objects_loop to_int (obj # objs) annotations =
     (case object_info to_int obj of
        Inl e \<Rightarrow> Inl e
      | Inr info \<Rightarrow> objects_loop to_int objs (annotations @ [info]))"

definition parse_halcon_annotation ::
  "(string \<Rightarrow> int option) \<Rightarrow> filesystem \<Rightarrow> string \<Rightarrow> error + obj_info list" where
  "parse_halcon_annotation to_int fs ann_path =
     (case ET_parse fs ann_path of
        Inl e \<Rightarrow> Inl e
      | Inr root \<Rightarrow> objects_loop to_int (findall ''object'' root) [])"

section \<open>Shared by both exporters\<close>

definition image_extension :: "string \<Rightarrow> bool" where
  \<comment> \<open>\<open>img_file.lower().endswith(('.png', '.jpg', '.jpeg'))\<close>\<close>
  "image_extension img_file = endswith_any (lower img_file) [''.png'', ''.jpg'', ''.jpeg'']"

fun py_enumerate :: "int \<Rightarrow> 'a list \<Rightarrow> (int \<times> 'a) list" where
  \<comment> \<open>\<open>enumerate(xs, i)\<close>\<close>
  "py_enumerate i [] = []"
| "py_enumerate i (x # xs) = (i, x) # py_enumerate (i + 1) xs"

section \<open>The VOC exporter\<close>

definition voc_header :: "string \<Rightarrow> string \<Rightarrow> int \<Rightarrow> int \<Rightarrow> elem" where
  \<comment> \<open>the tree before the \<open>object\<close> blocks are appended\<close>
  "voc_header img_file img_path width height =
     Elem ''annotation'' None
       [leaf ''folder'' ''VOC'',
        leaf ''filename'' img_file,
        leaf ''path'' img_path,
        Elem ''source'' None [leaf ''database'' ''Unknown''],
        Elem ''size'' None
          [leaf ''width'' (py_str width),
           leaf ''height'' (py_str height),
           leaf ''depth'' ''3'']]"

definition voc_object :: "obj_info \<Rightarrow> elem" where
  "voc_object ann =
     Elem ''object'' None
       [Elem ''name'' (name ann) [],
        leaf ''pose'' ''Unspecified'',
        leaf ''truncated'' ''0'',
        leaf ''difficult'' ''0'',
        Elem ''bndbox'' None
          [leaf ''xmin'' (py_str (x1 (bndbox ann))),
           leaf ''ymin'' (py_str (y1 (bndbox ann))),
           leaf ''xmax'' (py_str (x2 (bndbox ann))),
           leaf ''ymax'' (py_str (y2 (bndbox ann)))]]"

fun voc_objects_loop :: "obj_info list \<Rightarrow> elem \<Rightarrow> elem" where
  \<comment> \<open>\<open>for ann in annotations: obj = ET.SubElement(root, 'object') ...\<close>\<close>
  "voc_objects_loop [] root = root"
| "voc_objects_loop (ann # anns) root = voc_objects_loop anns (add_child root (voc_object ann))"

definition voc_image ::
  "(string \<Rightarrow> int option) \<Rightarrow> string \<Rightarrow> string \<Rightarrow> string \<Rightarrow> string \<Rightarrow> filesystem
     \<Rightarrow> error + filesystem"
  where
  \<comment> \<open>the body of the loop over the image directory for one accepted \<open>img_file\<close>, from
      the image being opened to \<open>Annotations/<img_id>.xml\<close> being written\<close>
  "voc_image to_int img_dir ann_dir output_dir img_file fs =
     (let img_id = fst (splitext img_file);
          img_path = path_join img_dir img_file;
          ann_path = path_join ann_dir (img_id @ ''.xml'')
      in case image_size fs img_path of
           Inl e \<Rightarrow> Inl e
         | Inr (width, height) \<Rightarrow>
             (case parse_halcon_annotation to_int fs ann_path of
                Inl e \<Rightarrow> Inl e
              | Inr annotations \<Rightarrow>
                  Inr (write_file fs
                         (path_join (path_join output_dir ''Annotations'') (img_id @ ''.xml''))
                         (XmlFile (voc_objects_loop annotations
                                     (voc_header img_file img_path width height))))))"

fun voc_images_loop ::
  "(string \<Rightarrow> int option) \<Rightarrow> string \<Rightarrow> string \<Rightarrow> string \<Rightarrow> string list \<Rightarrow> filesystem
     \<Rightarrow> string list \<Rightarrow> filesystem \<times> (error + string list)"
  where
  \<comment> \<open>\<open>for img_file in os.listdir(img_dir)\<close>; the result is the file system as the loop
      leaves it, with the error that stopped it or the list \<open>image_ids\<close>. The source
      appends to \<open>image_ids\<close> before it opens the image; the list is read only after
      a loop that completes, so the order of the two makes no difference.\<close>
  "voc_images_loop to_int img_dir ann_dir output_dir [] fs image_ids = (fs, Inr image_ids)"
| "voc_images_loop to_int img_dir ann_dir output_dir (img_file # rest) fs image_ids =
     (if \<not> image_extension img_file
      then voc_images_loop to_int img_dir ann_dir output_dir rest fs image_ids
      else
        (case voc_image to_int img_dir ann_dir output_dir img_file fs of
           Inl e \<Rightarrow> (fs, Inl e)
         | Inr fs' \<Rightarrow>
             voc_images_loop to_int img_dir ann_dir output_dir rest fs'
               (image_ids @ [fst (splitext img_file)])))"

definition convert_to_voc ::
  "(string \<Rightarrow> int option) \<Rightarrow> filesystem \<Rightarrow> string \<Rightarrow> string \<Rightarrow> string \<Rightarrow> string list
     \<Rightarrow> filesystem \<times> error option"
  where
  \<comment> \<open>the file system after the call, and the exception that ended it, if any\<close>
  "convert_to_voc to_int fs img_dir ann_dir output_dir class_names =
     (case os_listdir fs img_dir of
        Inl e \<Rightarrow> (fs, Some e)
      | Inr listing \<Rightarrow>
          (case voc_images_loop to_int img_dir ann_dir output_dir listing fs [] of
             (fs', Inl e) \<Rightarrow> (fs', Some e)
           | (fs', Inr image_ids) \<Rightarrow>
               (write_file fs' (path_join output_dir ''ImageSets/Main/trainval.txt'')
                  (TextFile (join_str [CHR 0x0A] image_ids)),
                None)))"

section \<open>The COCO exporter\<close>

fun categories_loop :: "(int \<times> string) list \<Rightarrow> coco \<Rightarrow> coco" where
  \<comment> \<open>\<open>for i, name in enumerate(class_names, 1): coco['categories'].append(...)\<close>\<close>
  "categories_loop [] coco = coco"
| "categories_loop ((i, cname) # rest) coco =
     categories_loop rest
       (coco\<lparr>coco_categories := coco_categories coco @
               [\<lparr>c_id = i, c_name = cname, c_supercategory = ''none''\<rparr>]\<rparr>)"

fun dict_of :: "(int \<times> string) list \<Rightarrow> (string \<rightharpoonup> int) \<Rightarrow> (string \<rightharpoonup> int)" where
  \<comment> \<open>the dictionary comprehension \<open>{name: i for i, name in ...}\<close>: a later pair with
      the same name replaces the earlier one\<close>
  "dict_of [] d = d"
| "dict_of ((i, cname) # rest) d = dict_of rest (d(cname \<mapsto> i))"

definition category_ids :: "string list \<Rightarrow> (string \<rightharpoonup> int)" where
  \<comment> \<open>\<open>category_ids = {name: i for i, name in enumerate(class_names, 1)}\<close>\<close>
  "category_ids class_names = dict_of (py_enumerate 1 class_names) Map.empty"

definition lookup_category :: "(string \<rightharpoonup> int) \<Rightarrow> string option \<Rightarrow> error + int" where
  \<comment> \<open>\<open>category_ids[ann['name']]\<close>; the name is \<open>None\<close> when the \<open>name\<close> element
      was empty, and \<open>None\<close> is no key of a dictionary built from a list of strings\<close>
  "lookup_category cids key =
     (case key of
        None \<Rightarrow> Inl (KeyError None)
      | Some k \<Rightarrow> (case cids k of None \<Rightarrow> Inl (KeyError (Some k)) | Some i \<Rightarrow> Inr i))"

fun coco_annotations_loop ::
  "(string \<rightharpoonup> int) \<Rightarrow> int \<Rightarrow> obj_info list \<Rightarrow> coco \<Rightarrow> int \<Rightarrow> error + coco \<times> int"
  where
  \<comment> \<open>\<open>for ann in annotations\<close>, on the document and the counter \<open>ann_id\<close>\<close>
  "coco_annotations_loop cids img_id [] coco ann_id = Inr (coco, ann_id)"
| "coco_annotations_loop cids img_id (ann # anns) coco ann_id =
     (let width = x2 (bndbox ann) - x1 (bndbox ann);
          height = y2 (bndbox ann) - y1 (bndbox ann)
      in case lookup_category cids (name ann) of
           Inl e \<Rightarrow> Inl e
         | Inr cid \<Rightarrow>
             coco_annotations_loop cids img_id anns
               (coco\<lparr>coco_annotations := coco_annotations coco @
                       [\<lparr>a_id = ann_id, a_image_id = img_id, a_category_id = cid,
                         a_bbox = [x1 (bndbox ann), y1 (bndbox ann), width, height],
                         a_area = width * height, a_iscrowd = 0, a_segmentation = []\<rparr>]\<rparr>)
               (ann_id + 1))"

fun coco_images_loop ::
  "(string \<Rightarrow> int option) \<Rightarrow> filesystem \<Rightarrow> string \<Rightarrow> string \<Rightarrow> (string \<rightharpoonup> int)
     \<Rightarrow> (int \<times> string) list \<Rightarrow> coco \<Rightarrow> int \<Rightarrow> error + coco \<times> int"
  where
  \<comment> \<open>\<open>for img_id, img_file in enumerate(os.listdir(img_dir), 1)\<close>\<close>
  "coco_images_loop to_int fs img_dir ann_dir cids [] coco ann_id = Inr (coco, ann_id)"
| "coco_images_loop to_int fs img_dir ann_dir cids ((img_id, img_file) # rest) coco ann_id =
     (if \<not> image_extension img_file
      then coco_images_loop to_int fs img_dir ann_dir cids rest coco ann_id
      else
        (case image_size fs (path_join img_dir img_file) of
           Inl e \<Rightarrow> Inl e
         | Inr (width, height) \<Rightarrow>
             (let coco' = coco\<lparr>coco_images := coco_images coco @
                            [\<lparr>i_id = img_id, i_file_name = img_file, i_width = width,
                              i_height = height, i_date_captured = ''2023-01-01'',
                              i_license = 0, i_coco_url = [], i_flickr_url = []\<rparr>]\<rparr>;
                  ann_path = path_join ann_dir (fst (splitext img_file) @ ''.xml'')
              in case parse_halcon_annotation to_int fs ann_path of
                   Inl e \<Rightarrow> Inl e
                 | Inr annotations \<Rightarrow>
                     (case coco_annotations_loop cids img_id annotations coco' ann_id of
                        Inl e \<Rightarrow> Inl e
                      | Inr (coco'', ann_id') \<Rightarrow>
                          coco_images_loop to_int fs img_dir ann_dir cids rest coco'' ann_id'))))"

definition convert_to_coco ::
  "(string \<Rightarrow> int option) \<Rightarrow> filesystem \<Rightarrow> string \<Rightarrow> string \<Rightarrow> string \<Rightarrow> string list
     \<Rightarrow> filesystem \<times> error option"
  where
  \<comment> \<open>the file system after the call, and the exception that ended it, if any\<close>
  "convert_to_coco to_int fs img_dir ann_dir output_path class_names =
     (let coco = categories_loop (py_enumerate 1 class_names)
                   \<lparr>coco_info = [], coco_licenses = [], coco_categories = [],
                    coco_images = [], coco_annotations = []\<rparr>;
          cids = category_ids class_names
      in case os_listdir fs img_dir of
           Inl e \<Rightarrow> (fs, Some e)
         | Inr listing \<Rightarrow>
             (case coco_images_loop to_int fs img_dir ann_dir cids (py_enumerate 1 listing) coco 1 of
                Inl e \<Rightarrow> (fs, Some e)
              | Inr (coco', ann_id) \<Rightarrow> (write_file fs output_path (JsonFile coco'), None)))"

section \<open>Notions used in the statements\<close>

definition annotation_path :: "string \<Rightarrow> string \<Rightarrow> string" where
  \<comment> \<open>where both exporters look for the annotation file of \<open>img_file\<close>\<close>
  "annotation_path ann_dir img_file = path_join ann_dir (fst (splitext img_file) @ ''.xml'')"

definition voc_annotation_path :: "string \<Rightarrow> string \<Rightarrow> string" where
  \<comment> \<open>\<open>Annotations/<img_id>.xml\<close> under the output directory\<close>
  "voc_annotation_path output_dir img_file =
     path_join (path_join output_dir ''Annotations'') (fst (splitext img_file) @ ''.xml'')"

definition parsed ::
  "(string \<Rightarrow> int option) \<Rightarrow> filesystem \<Rightarrow> string \<Rightarrow> string \<Rightarrow> obj_info list" where
  \<comment> \<open>the annotations the parser returns for \<open>img_file\<close>; none when it fails\<close>
  "parsed to_int fs ann_dir img_file =
     (case parse_halcon_annotation to_int fs (annotation_path ann_dir img_file) of
        Inl e \<Rightarrow> []
      | Inr anns \<Rightarrow> anns)"

definition accepted :: "string list \<Rightarrow> (int \<times> string) list" where
  \<comment> \<open>the entries of a directory listing that pass the extension filter, each with its
      1-based position in the listing\<close>
  "accepted listing = filter (\<lambda>(img_id, img_file). image_extension img_file) (py_enumerate 1 listing)"

definition processed ::
  "(string \<Rightarrow> int option) \<Rightarrow> filesystem \<Rightarrow> string \<Rightarrow> string list \<Rightarrow> (int \<times> obj_info) list"
  where
  \<comment> \<open>every parsed annotation with the image id of its image, in processing order\<close>
  "processed to_int fs ann_dir listing =
     concat (map (\<lambda>(img_id, img_file). map (Pair img_id) (parsed to_int fs ann_dir img_file))
               (accepted listing))"

fun first_index :: "string list \<Rightarrow> string \<Rightarrow> int" where
  \<comment> \<open>\<open>xs.index(k)\<close>, the 0-based position of the first occurrence, for \<open>k\<close> in \<open>xs\<close>\<close>
  "first_index [] k = 0"
| "first_index (x # xs) k = (if x = k then 0 else 1 + first_index xs k)"

fun last_index :: "string list \<Rightarrow> string \<Rightarrow> int" where
  \<comment> \<open>the 0-based position of the last occurrence, for \<open>k\<close> in \<open>xs\<close>\<close>
  "last_index [] k = 0"
| "last_index (x # xs) k = (if k \<in> set xs then 1 + last_index xs k else 0)"

definition known_category :: "string list \<Rightarrow> obj_info \<Rightarrow> bool" where
  "known_category class_names ann =
     (case name ann of None \<Rightarrow> False | Some n \<Rightarrow> n \<in> set class_names)"

definition entry_ok ::
  "(string \<Rightarrow> int option) \<Rightarrow> filesystem \<Rightarrow> string \<Rightarrow> string \<Rightarrow> string list \<Rightarrow> string \<Rightarrow> bool"
  where
  \<comment> \<open>a directory entry the COCO exporter gets past: it is skipped, or its image opens,
      its annotation file parses and every class name in it is known\<close>
  "entry_ok to_int fs img_dir ann_dir class_names img_file =
     (if image_extension img_file then
        (case image_size fs (path_join img_dir img_file) of
           Inl e \<Rightarrow> False
         | Inr wh \<Rightarrow>
             (case parse_halcon_annotation to_int fs (annotation_path ann_dir img_file) of
                Inl e \<Rightarrow> False
              | Inr anns \<Rightarrow> list_all (known_category class_names) anns))
      else True)"

definition bad_annotation ::
  "(string \<Rightarrow> int option) \<Rightarrow> filesystem \<Rightarrow> string \<Rightarrow> string list \<Rightarrow> string \<Rightarrow> bool"
  where
  \<comment> \<open>the annotation file of \<open>img_file\<close> is missing or malformed (the parser fails), or
      it names a class that is not in \<open>class_names\<close>\<close>
  "bad_annotation to_int fs ann_dir class_names img_file =
     (case parse_halcon_annotation to_int fs (annotation_path ann_dir img_file) of
        Inl e \<Rightarrow> True
      | Inr anns \<Rightarrow> \<not> list_all (known_category class_names) anns)"

definition field_reads :: "(string \<Rightarrow> int option) \<Rightarrow> string list \<Rightarrow> elem \<Rightarrow> int \<Rightarrow> bool" where
  \<comment> \<open>the field at \<open>path\<close> is present in the object node and \<open>int\<close> reads its text
      as \<open>v\<close>\<close>
  "field_reads to_int path obj v =
     (case find_path path obj of
        None \<Rightarrow> False
      | Some e \<Rightarrow> (case etext e of None \<Rightarrow> False | Some s \<Rightarrow> to_int s = Some v))"

definition integer_field :: "(string \<Rightarrow> int option) \<Rightarrow> string list \<Rightarrow> elem \<Rightarrow> bool" where
  \<comment> \<open>the field at \<open>path\<close> is present and its text is an integer: \<open>int\<close> accepts it\<close>
  "integer_field to_int path obj =
     (case find_path path obj of
        None \<Rightarrow> False
      | Some e \<Rightarrow> (case etext e of None \<Rightarrow> False | Some s \<Rightarrow> to_int s \<noteq> None))"

definition complete_object :: "(string \<Rightarrow> int option) \<Rightarrow> elem \<Rightarrow> bool" where
  \<comment> \<open>all five required fields are there, the corners as integers\<close>
  "complete_object to_int obj =
     (find_path [''name''] obj \<noteq> None \<and>
      integer_field to_int [''bndbox'', ''x1''] obj \<and> integer_field to_int [''bndbox'', ''y1''] obj \<and>
      integer_field to_int [''bndbox'', ''x2''] obj \<and> integer_field to_int [''bndbox'', ''y2''] obj)"

definition object_reads :: "(string \<Rightarrow> int option) \<Rightarrow> elem \<Rightarrow> obj_info \<Rightarrow> bool" where
  \<comment> \<open>the annotation carries the text of the object's name field and its four corners\<close>
  "object_reads to_int obj ann =
     ((case find_path [''name''] obj of None \<Rightarrow> False | Some n \<Rightarrow> name ann = etext n) \<and>
      field_reads to_int [''bndbox'', ''x1''] obj (x1 (bndbox ann)) \<and>
      field_reads to_int [''bndbox'', ''y1''] obj (y1 (bndbox ann)) \<and>
      field_reads to_int [''bndbox'', ''x2''] obj (x2 (bndbox ann)) \<and>
      field_reads to_int [''bndbox'', ''y2''] obj (y2 (bndbox ann)))"

definition field_text :: "string list \<Rightarrow> elem \<Rightarrow> string option" where
  \<comment> \<open>the text of the field at \<open>path\<close>, \<open>None\<close> when the field or its text is absent\<close>
  "field_text path obj = (case find_path path obj of None \<Rightarrow> None | Some e \<Rightarrow> etext e)"

definition voc_box_text :: "elem \<Rightarrow> string option list" where
  "voc_box_text obj =
     [field_text [''bndbox'', ''xmin''] obj, field_text [''bndbox'', ''ymin''] obj,
      field_text [''bndbox'', ''xmax''] obj, field_text [''bndbox'', ''ymax''] obj]"

definition voc_box :: "elem \<Rightarrow> (error + int) list" where
  \<comment> \<open>the corners of a VOC \<open>object\<close> block, read back as decimal integers\<close>
  "voc_box obj =
     [int_field ascii_int [''bndbox'', ''xmin''] obj, int_field ascii_int [''bndbox'', ''ymin''] obj,
      int_field ascii_int [''bndbox'', ''xmax''] obj, int_field ascii_int [''bndbox'', ''ymax''] obj]"

definition corners :: "obj_info \<Rightarrow> int list" where
  "corners ann = [x1 (bndbox ann), y1 (bndbox ann), x2 (bndbox ann), y2 (bndbox ann)]"

definition emitted :: "(string \<rightharpoonup> int) \<Rightarrow> int \<times> int \<times> obj_info \<Rightarrow> annotation \<Rightarrow> bool" where
  \<comment> \<open>\<open>e\<close> is the entry the COCO exporter appends for the annotation \<open>ann\<close> of image
      \<open>img_id\<close> when the counter stands at \<open>k\<close>\<close>
  "emitted cids t e =
     (case t of (k, img_id, ann) \<Rightarrow>
        a_id e = k \<and> a_image_id e = img_id \<and>
        lookup_category cids (name ann) = Inr (a_category_id e) \<and>
        a_bbox e = [x1 (bndbox ann), y1 (bndbox ann),
                    x2 (bndbox ann) - x1 (bndbox ann), y2 (bndbox ann) - y1 (bndbox ann)] \<and>
        a_area e = (x2 (bndbox ann) - x1 (bndbox ann)) * (y2 (bndbox ann) - y1 (bndbox ann)) \<and>
        a_iscrowd e = 0 \<and> a_segmentation e = [])"

definition category_of ::
  "(string list \<Rightarrow> string \<Rightarrow> int) \<Rightarrow> string list \<Rightarrow> annotation \<Rightarrow> int \<times> obj_info \<Rightarrow> bool"
  where
  \<comment> \<open>the entry \<open>e\<close> emitted for a parsed annotation has a class name of \<open>class_names\<close>
      and its \<open>category_id\<close> is 1 plus the position that \<open>index\<close> gives for that name\<close>
  "category_of index class_names e t =
     (case name (snd t) of
        None \<Rightarrow> False
      | Some n \<Rightarrow> n \<in> set class_names \<and> a_category_id e = 1 + index class_names n)"

definition image_ids :: "string list \<Rightarrow> string list" where
  \<comment> \<open>the list \<open>image_ids\<close> of the VOC exporter after a loop over \<open>listing\<close> that
      completes: the name without extension of every accepted entry, in order\<close>
  "image_ids listing = map (\<lambda>img_file. fst (splitext img_file)) (filter image_extension listing)"

fun split_on :: "char \<Rightarrow> string \<Rightarrow> string list" where
  \<comment> \<open>\<open>s.split(c)\<close>: the pieces of \<open>s\<close> between the occurrences of \<open>c\<close>\<close>
  "split_on c [] = [[]]"
| "split_on c (x # xs) =
     (if x = c then [] # split_on c xs
      else (case split_on c xs of [] \<Rightarrow> [[x]] | l # ls \<Rightarrow> (x # l) # ls))"

definition voc_document_for ::
  "(string \<Rightarrow> int option) \<Rightarrow> filesystem \<Rightarrow> filesystem \<Rightarrow> string \<Rightarrow> string \<Rightarrow> bool"
  where
  \<comment> \<open>the file \<open>p\<close> of \<open>fs\<close> is a VOC document whose \<open>object\<close> blocks are, in order, those
      of the annotations that the parser returns for the file \<open>q\<close> of \<open>fs0\<close>\<close>
  "voc_document_for to_int fs0 fs q p =
     (case parse_halcon_annotation to_int fs0 q of
        Inl e \<Rightarrow> False
      | Inr anns \<Rightarrow>
          (case files fs p of
             Some (XmlFile doc) \<Rightarrow> findall ''object'' doc = map voc_object anns
           | _ \<Rightarrow> False))"

subsection \<open>Example inputs\<close>

text \<open>
  The integers of the examples are written in ASCII digits; the examples are run with
  \<open>ascii_int\<close> for the builtin \<open>int\<close>.
\<close>

definition halcon_object :: "string \<Rightarrow> string \<Rightarrow> string \<Rightarrow> string \<Rightarrow> string \<Rightarrow> elem" where
  "halcon_object n a b c d =
     Elem ''object'' None
       [leaf ''name'' n,
        Elem ''bndbox'' None [leaf ''x1'' a, leaf ''y1'' b, leaf ''x2'' c, leaf ''y2'' d]]"

definition example_fs :: filesystem where
  \<comment> \<open>a text file and two images; \<open>a.xml\<close> holds one box, \<open>b.xml\<close> two\<close>
  "example_fs =
     \<lparr>dirs = [''img'' \<mapsto> [''notes.txt'', ''a.jpg'', ''b.PNG'']],
      files =
        [''img/a.jpg'' \<mapsto> ImageFile 100 50,
         ''img/b.PNG'' \<mapsto> ImageFile 64 48,
         ''ann/a.xml'' \<mapsto>
           XmlFile (Elem ''annotation'' None [halcon_object ''cat'' ''10'' ''10'' ''60'' ''40'']),
         ''ann/b.xml'' \<mapsto>
           XmlFile (Elem ''annotation'' None
                      [halcon_object ''dog'' ''0'' ''0'' ''5'' ''7'',
                       halcon_object ''cat'' ''1'' ''2'' ''3'' ''4''])]\<rparr>"

definition twin_fs :: filesystem where
  \<comment> \<open>two images that differ in their extension only\<close>
  "twin_fs =
     \<lparr>dirs = [''img'' \<mapsto> [''a.jpg'', ''a.png'']],
      files =
        [''img/a.jpg'' \<mapsto> ImageFile 100 50,
         ''img/a.png'' \<mapsto> ImageFile 100 50,
         ''ann/a.xml'' \<mapsto>
           XmlFile (Elem ''annotation'' None [halcon_object ''cat'' ''10'' ''10'' ''60'' ''40''])]\<rparr>"

definition stray_fs :: filesystem where
  \<comment> \<open>the second image has a box of a class, \<open>bird\<close>, between two of common classes\<close>
  "stray_fs =
     \<lparr>dirs = [''img'' \<mapsto> [''a.jpg'', ''c.jpeg'']],
      files =
        [''img/a.jpg'' \<mapsto> ImageFile 100 50,
         ''img/c.jpeg'' \<mapsto> ImageFile 10 10,
         ''ann/a.xml'' \<mapsto>
           XmlFile (Elem ''annotation'' None [halcon_object ''cat'' ''10'' ''10'' ''60'' ''40'']),
         ''ann/c.xml'' \<mapsto>
           XmlFile (Elem ''annotation'' None
                      [halcon_object ''cat'' ''1'' ''1'' ''2'' ''2'',
                       halcon_object ''bird'' ''0'' ''0'' ''1'' ''1'',
                       halcon_object ''dog'' ''3'' ''3'' ''4'' ''4''])]\<rparr>"

section \<open>Properties\<close>

text \<open>
  The lemmas and theorems about the parser and the exporters hold for every \<open>to_int\<close>.
\<close>

subsection \<open>Decimal text\<close>

lemma is_digit_digit_char: "d < 10 \<Longrightarrow> is_digit (digit_char d)"
  by (simp add: is_digit_def digit_char_def)

lemma digit_val_digit_char: "d < 10 \<Longrightarrow> digit_val (digit_char d) = d"
  by (simp add: digit_val_def digit_char_def)

lemma str_nat_digits: "\<forall>c \<in> set (str_nat n). is_digit c"
proof (induction n rule: str_nat.induct)
  case (1 n)
  show ?case
  proof (cases "n < 10")
    case True
    then show ?thesis by (subst str_nat.simps) (simp add: is_digit_digit_char)
  next
    case False
    with 1 have "\<forall>c \<in> set (str_nat (n div 10)). is_digit c" by blast
    moreover have "is_digit (digit_char (n mod 10))" by (simp add: is_digit_digit_char)
    ultimately show ?thesis using False by (subst str_nat.simps) simp
  qed
qed

lemma str_nat_not_Nil: "str_nat n \<noteq> []"
  by (subst str_nat.simps) simp

lemma digits_acc_digits:
  "\<forall>c \<in> set ds. is_digit c \<Longrightarrow>
     digits_acc acc (ds @ rest) = digits_acc (foldl (\<lambda>a c. 10 * a + digit_val c) acc ds) rest"
  by (induction ds arbitrary: acc) simp_all

lemma foldl_str_nat: "foldl (\<lambda>a c. 10 * a + digit_val c) 0 (str_nat n) = n"
proof (induction n rule: str_nat.induct)
  case (1 n)
  show ?case
  proof (cases "n < 10")
    case True
    then show ?thesis by (subst str_nat.simps) (simp add: digit_val_digit_char)
  next
    case False
    with 1 have "foldl (\<lambda>a c. 10 * a + digit_val c) 0 (str_nat (n div 10)) = n div 10" by blast
    then show ?thesis using False
      by (subst str_nat.simps) (simp add: digit_val_digit_char)
  qed
qed

lemma py_digits_str_nat: "py_digits (str_nat n) = Some n"
proof -
  obtain c cs where s: "str_nat n = c # cs"
    using str_nat_not_Nil [of n] by (cases "str_nat n") auto
  have d: "\<forall>c \<in> set (str_nat n). is_digit c" by (rule str_nat_digits)
  then have "is_digit c" by (simp add: s)
  then have "py_digits (str_nat n) = digits_acc 0 (str_nat n @ [])"
    by (simp add: py_digits_def s)
  also have "\<dots> = Some n"
    by (simp only: digits_acc_digits [OF d] foldl_str_nat digits_acc.simps)
  finally show ?thesis .
qed

lemma digit_not_space: "is_digit c \<Longrightarrow> \<not> is_space c"
  by (auto simp: is_digit_def is_space_def Let_def)

lemma dropWhile_hd_id: "xs \<noteq> [] \<Longrightarrow> \<not> P (hd xs) \<Longrightarrow> dropWhile P xs = xs"
  by (cases xs) auto

lemma strip_id:
  assumes "s \<noteq> []" "\<not> is_space (hd s)" "\<not> is_space (last s)"
  shows "strip s = s"
proof -
  have 1: "dropWhile is_space s = s" using assms by (simp add: dropWhile_hd_id)
  have "rev s \<noteq> []" "\<not> is_space (hd (rev s))" using assms by (simp_all add: hd_rev)
  then have 2: "dropWhile is_space (rev s) = rev s" by (rule dropWhile_hd_id)
  show ?thesis by (simp add: strip_def 1 2)
qed

lemma last_str_nat_digit: "is_digit (last (str_nat n))"
  using str_nat_digits [of n] str_nat_not_Nil [of n] last_in_set by blast

lemma hd_str_nat_digit: "is_digit (hd (str_nat n))"
  using str_nat_digits [of n] str_nat_not_Nil [of n] hd_in_set by blast

lemma ascii_int_str: "ascii_int (py_str i) = Some i"
proof (cases "i < 0")
  case True
  have "\<not> is_space (CHR ''-'')" by (simp add: is_space_def)
  then have "strip (CHR ''-'' # str_nat (nat (- i))) = CHR ''-'' # str_nat (nat (- i))"
    using last_str_nat_digit [of "nat (- i)"] str_nat_not_Nil [of "nat (- i)"]
    by (intro strip_id) (simp_all add: digit_not_space)
  then show ?thesis using True
    by (simp add: ascii_int_def py_str_def py_digits_str_nat)
next
  case False
  obtain c cs where s: "str_nat (nat i) = c # cs"
    using str_nat_not_Nil [of "nat i"] by (cases "str_nat (nat i)") auto
  have c: "is_digit c" using hd_str_nat_digit [of "nat i"] by (simp add: s)
  then have n: "c \<noteq> CHR ''-''" "c \<noteq> CHR ''+''" by (auto simp: is_digit_def)
  have "strip (str_nat (nat i)) = str_nat (nat i)"
    using last_str_nat_digit [of "nat i"] hd_str_nat_digit [of "nat i"] str_nat_not_Nil [of "nat i"]
    by (intro strip_id) (simp_all add: digit_not_space)
  then show ?thesis using False n py_digits_str_nat [of "nat i"]
    by (simp add: ascii_int_def py_str_def s)
qed

subsection \<open>Enumeration and the category table\<close>

lemma py_enumerate_append:
  "py_enumerate i (xs @ ys) = py_enumerate i xs @ py_enumerate (i + int (length xs)) ys"
  by (induction xs arbitrary: i) (simp_all add: add.assoc)

lemma map_snd_py_enumerate: "map snd (py_enumerate i xs) = xs"
  by (induction xs arbitrary: i) simp_all

lemma map_fst_py_enumerate: "map fst (py_enumerate i xs) = [i..i + int (length xs) - 1]"
proof (induction xs arbitrary: i)
  case Nil
  then show ?case by simp
next
  case (Cons x xs)
  have "[i..i + int (length (x # xs)) - 1] = i # [i + 1..i + int (length (x # xs)) - 1]"
    by (subst upto_rec1) simp_all
  then show ?case using Cons [of "i + 1"] by (simp add: add.assoc)
qed

lemma length_py_enumerate: "length (py_enumerate i xs) = length xs"
  by (induction xs arbitrary: i) simp_all

lemma categories_loop_eq:
  "categories_loop ps coco =
     coco\<lparr>coco_categories := coco_categories coco @
            map (\<lambda>(i, cname). \<lparr>c_id = i, c_name = cname, c_supercategory = ''none''\<rparr>) ps\<rparr>"
  by (induction ps coco rule: categories_loop.induct) simp_all

lemma dict_of_enumerate:
  "dict_of (py_enumerate i xs) d k =
     (if k \<in> set xs then Some (i + last_index xs k) else d k)"
  by (induction xs arbitrary: i d) auto

lemma last_index_is_last:
  "k \<in> set xs \<Longrightarrow>
     0 \<le> last_index xs k \<and> nat (last_index xs k) < length xs \<and>
     xs ! nat (last_index xs k) = k \<and> k \<notin> set (drop (Suc (nat (last_index xs k))) xs)"
proof (induction xs)
  case Nil
  then show ?case by simp
next
  case (Cons x xs)
  show ?case
  proof (cases "k \<in> set xs")
    case True
    with Cons.IH show ?thesis by (simp add: nat_add_distrib)
  next
    case False
    then show ?thesis using Cons.prems by simp
  qed
qed

lemma first_index_is_first:
  "k \<in> set xs \<Longrightarrow>
     0 \<le> first_index xs k \<and> nat (first_index xs k) < length xs \<and>
     xs ! nat (first_index xs k) = k \<and> k \<notin> set (take (nat (first_index xs k)) xs)"
proof (induction xs)
  case Nil
  then show ?case by simp
next
  case (Cons x xs)
  show ?case
  proof (cases "x = k")
    case True
    then show ?thesis by simp
  next
    case False
    with Cons show ?thesis by (simp add: nat_add_distrib)
  qed
qed

lemma last_index_distinct: "distinct xs \<Longrightarrow> k \<in> set xs \<Longrightarrow> last_index xs k = first_index xs k"
  by (induction xs) auto

lemma lookup_category_known:
  "lookup_category (category_ids class_names) (name ann) = Inr cid \<longleftrightarrow>
     (\<exists>n. name ann = Some n \<and> n \<in> set class_names \<and> cid = 1 + last_index class_names n)"
  by (auto simp: lookup_category_def category_ids_def dict_of_enumerate split: option.splits)

lemma lookup_category_unknown:
  "\<not> known_category class_names ann \<Longrightarrow>
     lookup_category (category_ids class_names) (name ann) =
       Inl (KeyError (name ann))"
  by (auto simp: lookup_category_def known_category_def category_ids_def dict_of_enumerate
      split: option.splits)

subsection \<open>The loops of the COCO exporter\<close>

lemma coco_annotations_loop_Inr:
  "coco_annotations_loop cids img_id anns coco k = Inr (coco', k') \<Longrightarrow>
     k' = k + int (length anns) \<and>
     coco_info coco' = coco_info coco \<and> coco_licenses coco' = coco_licenses coco \<and>
     coco_categories coco' = coco_categories coco \<and> coco_images coco' = coco_images coco \<and>
     (\<exists>new. coco_annotations coco' = coco_annotations coco @ new \<and>
        list_all2 (emitted cids) (py_enumerate k (map (Pair img_id) anns)) new)"
proof (induction anns arbitrary: coco k)
  case Nil
  then show ?case by simp
next
  case (Cons ann anns)
  from Cons.prems obtain cid where
    cid: "lookup_category cids (name ann) = Inr cid"
    by (auto simp: Let_def split: sum.splits)
  define e where "e = \<lparr>a_id = k, a_image_id = img_id, a_category_id = cid,
     a_bbox = [x1 (bndbox ann), y1 (bndbox ann),
               x2 (bndbox ann) - x1 (bndbox ann), y2 (bndbox ann) - y1 (bndbox ann)],
     a_area = (x2 (bndbox ann) - x1 (bndbox ann)) * (y2 (bndbox ann) - y1 (bndbox ann)),
     a_iscrowd = 0, a_segmentation = []\<rparr>"
  have run: "coco_annotations_loop cids img_id anns
               (coco\<lparr>coco_annotations := coco_annotations coco @ [e]\<rparr>) (k + 1) = Inr (coco', k')"
    using Cons.prems cid by (simp add: Let_def e_def)
  from Cons.IH [OF run] obtain new where
    k': "k' = k + 1 + int (length anns)" and
    same: "coco_info coco' = coco_info coco" "coco_licenses coco' = coco_licenses coco"
      "coco_categories coco' = coco_categories coco" "coco_images coco' = coco_images coco" and
    new: "coco_annotations coco' = (coco_annotations coco @ [e]) @ new"
      "list_all2 (emitted cids) (py_enumerate (k + 1) (map (Pair img_id) anns)) new"
    by auto
  have "emitted cids (k, img_id, ann) e" by (simp add: emitted_def e_def cid)
  then have "list_all2 (emitted cids) (py_enumerate k (map (Pair img_id) (ann # anns))) (e # new)"
    using new(2) by simp
  moreover have "coco_annotations coco' = coco_annotations coco @ (e # new)"
    using new(1) by simp
  ultimately show ?case using k' same by (intro conjI exI [of _ "e # new"]) simp_all
qed

lemma coco_annotations_loop_known:
  "coco_annotations_loop (category_ids class_names) img_id anns coco k = Inr r \<Longrightarrow>
     list_all (known_category class_names) anns"
proof (induction anns arbitrary: coco k)
  case Nil
  then show ?case by simp
next
  case (Cons ann anns)
  from Cons.prems obtain cid where
    cid: "lookup_category (category_ids class_names) (name ann) = Inr cid"
    by (auto simp: Let_def split: sum.splits)
  then have "known_category class_names ann"
    by (auto simp: lookup_category_known known_category_def)
  moreover have "list_all (known_category class_names) anns"
    using Cons.prems cid by (auto simp: Let_def intro: Cons.IH)
  ultimately show ?case by simp
qed

lemma coco_annotations_loop_total:
  "list_all (known_category class_names) anns \<Longrightarrow>
     \<exists>r. coco_annotations_loop (category_ids class_names) img_id anns coco k = Inr r"
proof (induction anns arbitrary: coco k)
  case Nil
  then show ?case by simp
next
  case (Cons ann anns)
  then have "known_category class_names ann" by simp
  then obtain cid where "lookup_category (category_ids class_names) (name ann) = Inr cid"
    by (auto simp: lookup_category_known known_category_def split: option.splits)
  then show ?case using Cons by (simp add: Let_def)
qed

lemma coco_annotations_loop_KeyError:
  "list_all (known_category class_names) as \<Longrightarrow> \<not> known_category class_names a \<Longrightarrow>
     coco_annotations_loop (category_ids class_names) img_id (as @ a # bs) coco k =
       Inl (KeyError (name a))"
proof (induction as arbitrary: coco k)
  case Nil
  then show ?case by (simp add: Let_def lookup_category_unknown)
next
  case (Cons b as)
  then have "known_category class_names b" by simp
  then obtain cid where "lookup_category (category_ids class_names) (name b) = Inr cid"
    by (auto simp: lookup_category_known known_category_def split: option.splits)
  then show ?case using Cons by (simp add: Let_def)
qed

lemma parsed_Inr:
  "parse_halcon_annotation to_int fs (path_join ann_dir (fst (splitext img_file) @ ''.xml'')) = Inr anns
     \<Longrightarrow> parsed to_int fs ann_dir img_file = anns"
  by (simp add: parsed_def annotation_path_def)

lemma coco_images_loop_Inr:
  "coco_images_loop to_int fs img_dir ann_dir cids entries coco k = Inr (coco', k') \<Longrightarrow>
     coco_info coco' = coco_info coco \<and> coco_licenses coco' = coco_licenses coco \<and>
     coco_categories coco' = coco_categories coco \<and>
     (\<exists>imgs. coco_images coco' = coco_images coco @ imgs \<and>
        map (\<lambda>i. (i_id i, i_file_name i)) imgs =
          filter (\<lambda>(img_id, img_file). image_extension img_file) entries) \<and>
     (\<exists>new. coco_annotations coco' = coco_annotations coco @ new \<and>
        k' = k + int (length new) \<and>
        list_all2 (emitted cids)
          (py_enumerate k
             (concat (map (\<lambda>(img_id, img_file). map (Pair img_id) (parsed to_int fs ann_dir img_file))
                        (filter (\<lambda>(img_id, img_file). image_extension img_file) entries))))
          new)"
proof (induction entries arbitrary: coco k)
  case Nil
  then show ?case by simp
next
  case (Cons entry rest)
  obtain img_id img_file where entry: "entry = (img_id, img_file)" by (cases entry)
  show ?case
  proof (cases "image_extension img_file")
    case False
    then have "coco_images_loop to_int fs img_dir ann_dir cids rest coco k = Inr (coco', k')"
      using Cons.prems by (simp add: entry)
    from Cons.IH [OF this] show ?thesis using False by (simp add: entry)
  next
    case True
    from Cons.prems True obtain width height anns coco2 k2 where
      size: "image_size fs (path_join img_dir img_file) = Inr (width, height)" and
      parse: "parse_halcon_annotation to_int fs (path_join ann_dir (fst (splitext img_file) @ ''.xml''))
                = Inr anns" and
      inner: "coco_annotations_loop cids img_id anns
                (coco\<lparr>coco_images := coco_images coco @
                   [\<lparr>i_id = img_id, i_file_name = img_file, i_width = width,
                     i_height = height, i_date_captured = ''2023-01-01'',
                     i_license = 0, i_coco_url = [], i_flickr_url = []\<rparr>]\<rparr>) k = Inr (coco2, k2)" and
      rest: "coco_images_loop to_int fs img_dir ann_dir cids rest coco2 k2 = Inr (coco', k')"
      by (auto simp: entry Let_def split: sum.splits prod.splits)
    define info where "info = \<lparr>i_id = img_id, i_file_name = img_file, i_width = width,
                     i_height = height, i_date_captured = ''2023-01-01'',
                     i_license = 0, i_coco_url = [], i_flickr_url = []\<rparr>"
    from coco_annotations_loop_Inr [OF inner] obtain new1 where
      k2: "k2 = k + int (length anns)" and
      same2: "coco_info coco2 = coco_info coco" "coco_licenses coco2 = coco_licenses coco"
        "coco_categories coco2 = coco_categories coco" and
      imgs2: "coco_images coco2 = coco_images coco @ [info]" and
      new1: "coco_annotations coco2 = coco_annotations coco @ new1"
        "list_all2 (emitted cids) (py_enumerate k (map (Pair img_id) anns)) new1"
      by (auto simp: info_def)
    from Cons.IH [OF rest] obtain imgs new2 where
      same: "coco_info coco' = coco_info coco2" "coco_licenses coco' = coco_licenses coco2"
        "coco_categories coco' = coco_categories coco2" and
      imgs: "coco_images coco' = coco_images coco2 @ imgs"
        "map (\<lambda>i. (i_id i, i_file_name i)) imgs =
           filter (\<lambda>(img_id, img_file). image_extension img_file) rest" and
      new2: "coco_annotations coco' = coco_annotations coco2 @ new2"
        "k' = k2 + int (length new2)"
        "list_all2 (emitted cids)
           (py_enumerate k2
              (concat (map (\<lambda>(img_id, img_file). map (Pair img_id) (parsed to_int fs ann_dir img_file))
                         (filter (\<lambda>(img_id, img_file). image_extension img_file) rest))))
           new2"
      by auto
    have len1: "length new1 = length anns"
      using list_all2_lengthD [OF new1(2)] by (simp add: length_py_enumerate)
    have A: "coco_images coco' = coco_images coco @ (info # imgs)"
      using imgs(1) imgs2 by simp
    have B: "map (\<lambda>i. (i_id i, i_file_name i)) (info # imgs) =
               filter (\<lambda>(img_id, img_file). image_extension img_file) (entry # rest)"
      using imgs(2) True by (simp add: entry info_def)
    have C: "coco_annotations coco' = coco_annotations coco @ (new1 @ new2)"
      using new1(1) new2(1) by simp
    have D: "k' = k + int (length (new1 @ new2))"
      using new2(2) k2 len1 by simp
    have "list_all2 (emitted cids)
            (py_enumerate k (map (Pair img_id) anns) @
             py_enumerate k2
               (concat (map (\<lambda>(img_id, img_file). map (Pair img_id) (parsed to_int fs ann_dir img_file))
                          (filter (\<lambda>(img_id, img_file). image_extension img_file) rest))))
            (new1 @ new2)"
      using new1(2) new2(3) by (rule list_all2_appendI)
    then have E: "list_all2 (emitted cids)
          (py_enumerate k
             (concat (map (\<lambda>(img_id, img_file). map (Pair img_id) (parsed to_int fs ann_dir img_file))
                        (filter (\<lambda>(img_id, img_file). image_extension img_file) (entry # rest)))))
          (new1 @ new2)"
      using True by (simp add: entry py_enumerate_append k2 parsed_Inr [OF parse])
    show ?thesis
      using same same2 A B C D E by (intro conjI exI [of _ "info # imgs"] exI [of _ "new1 @ new2"]) simp_all
  qed
qed

lemma coco_images_loop_entry_ok:
  "coco_images_loop to_int fs img_dir ann_dir (category_ids class_names) entries coco k = Inr r \<Longrightarrow>
     list_all (\<lambda>(img_id, img_file). entry_ok to_int fs img_dir ann_dir class_names img_file) entries"
proof (induction entries arbitrary: coco k)
  case Nil
  then show ?case by simp
next
  case (Cons entry rest)
  obtain img_id img_file where entry: "entry = (img_id, img_file)" by (cases entry)
  show ?case
  proof (cases "image_extension img_file")
    case False
    then have "coco_images_loop to_int fs img_dir ann_dir (category_ids class_names) rest coco k = Inr r"
      using Cons.prems by (simp add: entry)
    from Cons.IH [OF this] show ?thesis using False by (simp add: entry entry_ok_def)
  next
    case True
    from Cons.prems True obtain wh anns coco1 r2 where
      size: "image_size fs (path_join img_dir img_file) = Inr wh" and
      parse: "parse_halcon_annotation to_int fs (path_join ann_dir (fst (splitext img_file) @ ''.xml''))
                = Inr anns" and
      inner: "coco_annotations_loop (category_ids class_names) img_id anns coco1 k = Inr r2" and
      rest: "coco_images_loop to_int fs img_dir ann_dir (category_ids class_names) rest (fst r2) (snd r2)
               = Inr r"
      by (auto simp: entry Let_def split: sum.splits prod.splits)
    have "entry_ok to_int fs img_dir ann_dir class_names img_file"
      using True size parse coco_annotations_loop_known [OF inner]
      by (simp add: entry_ok_def annotation_path_def)
    then show ?thesis using Cons.IH [OF rest] by (simp add: entry)
  qed
qed

lemma coco_images_loop_append:
  "coco_images_loop to_int fs img_dir ann_dir cids (xs @ ys) coco k =
     (case coco_images_loop to_int fs img_dir ann_dir cids xs coco k of
        Inl e \<Rightarrow> Inl e
      | Inr (coco', k') \<Rightarrow> coco_images_loop to_int fs img_dir ann_dir cids ys coco' k')"
proof (induction xs arbitrary: coco k)
  case Nil
  then show ?case by simp
next
  case (Cons entry rest)
  obtain img_id img_file where entry: "entry = (img_id, img_file)" by (cases entry)
  show ?case
    by (simp add: entry Cons.IH Let_def split: sum.splits prod.splits)
qed

lemma coco_images_loop_total:
  "list_all (\<lambda>(img_id, img_file). entry_ok to_int fs img_dir ann_dir class_names img_file) entries \<Longrightarrow>
     \<exists>r. coco_images_loop to_int fs img_dir ann_dir (category_ids class_names) entries coco k = Inr r"
proof (induction entries arbitrary: coco k)
  case Nil
  then show ?case by simp
next
  case (Cons entry rest)
  obtain img_id img_file where entry: "entry = (img_id, img_file)" by (cases entry)
  have rest: "list_all (\<lambda>(img_id, img_file). entry_ok to_int fs img_dir ann_dir class_names img_file) rest"
    and ok: "entry_ok to_int fs img_dir ann_dir class_names img_file"
    using Cons.prems by (simp_all add: entry)
  show ?case
  proof (cases "image_extension img_file")
    case False
    then show ?thesis using Cons.IH [OF rest] by (simp add: entry)
  next
    case True
    from ok True obtain width height anns where
      size: "image_size fs (path_join img_dir img_file) = Inr (width, height)" and
      parse: "parse_halcon_annotation to_int fs (path_join ann_dir (fst (splitext img_file) @ ''.xml''))
                = Inr anns" and
      known: "list_all (known_category class_names) anns"
      by (auto simp: entry_ok_def annotation_path_def split: sum.splits)
    obtain coco2 k2 where
      "coco_annotations_loop (category_ids class_names) img_id anns
         (coco\<lparr>coco_images := coco_images coco @
            [\<lparr>i_id = img_id, i_file_name = img_file, i_width = width,
              i_height = height, i_date_captured = ''2023-01-01'',
              i_license = 0, i_coco_url = [], i_flickr_url = []\<rparr>]\<rparr>) k = Inr (coco2, k2)"
      using coco_annotations_loop_total [OF known] by (metis surj_pair)
    then show ?thesis using True size parse Cons.IH [OF rest, of coco2 k2]
      by (simp add: entry Let_def)
  qed
qed

subsection \<open>The COCO exporter as a whole\<close>

lemma convert_to_coco_cases:
  obtains (listdir) e where "os_listdir fs img_dir = Inl e"
      "convert_to_coco to_int fs img_dir ann_dir output_path class_names = (fs, Some e)"
  | (abort) listing e where "dirs fs img_dir = Some listing"
      "coco_images_loop to_int fs img_dir ann_dir (category_ids class_names) (py_enumerate 1 listing)
         (categories_loop (py_enumerate 1 class_names)
            \<lparr>coco_info = [], coco_licenses = [], coco_categories = [],
             coco_images = [], coco_annotations = []\<rparr>) 1 = Inl e"
      "convert_to_coco to_int fs img_dir ann_dir output_path class_names = (fs, Some e)"
  | (written) listing c k where "dirs fs img_dir = Some listing"
      "coco_images_loop to_int fs img_dir ann_dir (category_ids class_names) (py_enumerate 1 listing)
         (categories_loop (py_enumerate 1 class_names)
            \<lparr>coco_info = [], coco_licenses = [], coco_categories = [],
             coco_images = [], coco_annotations = []\<rparr>) 1 = Inr (c, k)"
      "convert_to_coco to_int fs img_dir ann_dir output_path class_names =
         (write_file fs output_path (JsonFile c), None)"
proof (cases "dirs fs img_dir")
  case None
  then show ?thesis
    by (intro listdir [of "OSError img_dir"]) (simp_all add: convert_to_coco_def os_listdir_def)
next
  case (Some listing)
  show ?thesis
  proof (cases "coco_images_loop to_int fs img_dir ann_dir (category_ids class_names)
         (py_enumerate 1 listing)
         (categories_loop (py_enumerate 1 class_names)
            \<lparr>coco_info = [], coco_licenses = [], coco_categories = [],
             coco_images = [], coco_annotations = []\<rparr>) 1")
    case (Inl e)
    then show ?thesis using Some
      by (intro abort [of listing e]) (simp_all add: convert_to_coco_def os_listdir_def)
  next
    case (Inr r)
    then show ?thesis using Some
      by (intro written [of listing "fst r" "snd r"])
        (simp_all add: convert_to_coco_def os_listdir_def split: prod.splits)
  qed
qed

lemma coco_document:
  assumes listing: "dirs fs img_dir = Some listing"
    and ok: "snd (convert_to_coco to_int fs img_dir ann_dir output_path class_names) = None"
  shows "\<exists>c. files (fst (convert_to_coco to_int fs img_dir ann_dir output_path class_names)) output_path
             = Some (JsonFile c) \<and>
           coco_info c = [] \<and> coco_licenses c = [] \<and>
           coco_categories c =
             map (\<lambda>(i, cname). \<lparr>c_id = i, c_name = cname, c_supercategory = ''none''\<rparr>)
               (py_enumerate 1 class_names) \<and>
           map (\<lambda>i. (i_id i, i_file_name i)) (coco_images c) = accepted listing \<and>
           list_all2 (emitted (category_ids class_names))
             (py_enumerate 1 (processed to_int fs ann_dir listing)) (coco_annotations c) \<and>
           list_all (entry_ok to_int fs img_dir ann_dir class_names) listing"
proof (cases rule: convert_to_coco_cases [where to_int = to_int and fs = fs and img_dir = img_dir and
    ann_dir = ann_dir and output_path = output_path and class_names = class_names])
  case (listdir e)
  then show ?thesis using ok by simp
next
  case (abort listing' e)
  then show ?thesis using ok by simp
next
  case (written listing' c k)
  then have l: "listing' = listing" using listing by simp
  note loop = written(2) [unfolded l]
  have "list_all (\<lambda>(img_id, img_file). entry_ok to_int fs img_dir ann_dir class_names img_file)
          (py_enumerate 1 listing)"
    using coco_images_loop_entry_ok [OF loop] .
  then have "list_all (entry_ok to_int fs img_dir ann_dir class_names) (map snd (py_enumerate 1 listing))"
    by (simp add: list_all_iff split_beta)
  then have E: "list_all (entry_ok to_int fs img_dir ann_dir class_names) listing"
    by (simp add: map_snd_py_enumerate)
  have F: "files (fst (convert_to_coco to_int fs img_dir ann_dir output_path class_names)) output_path
             = Some (JsonFile c)"
    by (simp add: written(3) write_file_def)
  from coco_images_loop_Inr [OF loop] have
    "coco_info c = []" "coco_licenses c = []"
    "coco_categories c =
       map (\<lambda>(i, cname). \<lparr>c_id = i, c_name = cname, c_supercategory = ''none''\<rparr>)
         (py_enumerate 1 class_names)"
    "map (\<lambda>i. (i_id i, i_file_name i)) (coco_images c) = accepted listing"
    "list_all2 (emitted (category_ids class_names))
       (py_enumerate 1 (processed to_int fs ann_dir listing)) (coco_annotations c)"
    by (auto simp: categories_loop_eq accepted_def processed_def)
  then show ?thesis using E F by blast
qed

lemma emitted_ids: "list_all2 (emitted cids) ts new \<Longrightarrow> map a_id new = map fst ts"
  by (induction ts new rule: list_all2_induct) (auto simp: emitted_def)

lemma emitted_boxes:
  "list_all2 (emitted cids) ts new \<Longrightarrow>
     map (\<lambda>e. (a_bbox e, a_area e)) new =
       map (\<lambda>(img_id, ann).
              ([x1 (bndbox ann), y1 (bndbox ann),
                x2 (bndbox ann) - x1 (bndbox ann), y2 (bndbox ann) - y1 (bndbox ann)],
               (x2 (bndbox ann) - x1 (bndbox ann)) * (y2 (bndbox ann) - y1 (bndbox ann))))
         (map snd ts)"
  by (induction ts new rule: list_all2_induct) (auto simp: emitted_def)

lemma emitted_categories:
  "list_all2 (emitted (category_ids class_names)) ts new \<Longrightarrow>
     list_all2 (\<lambda>e (img_id, ann). \<exists>n. name ann = Some n \<and> n \<in> set class_names \<and>
                   a_category_id e = 1 + last_index class_names n)
       new (map snd ts)"
  by (induction ts new rule: list_all2_induct) (auto simp: emitted_def lookup_category_known)

lemma py_enumerate_snd_mem: "(i, x) \<in> set (py_enumerate k xs) \<Longrightarrow> x \<in> set xs"
  by (induction xs arbitrary: k) auto

section \<open>Claims about the COCO exporter\<close>

text \<open>
  C1, as stated: the k-th accepted image receives image id k, whatever entries were
  skipped. In \<open>example_fs\<close> the listing starts with a text file; the first accepted
  image, \<open>a.jpg\<close>, receives id 2 and the second, \<open>b.PNG\<close>, id 3.
\<close>

theorem coco_image_id_counterexample:
  "files (fst (convert_to_coco ascii_int example_fs ''img'' ''ann'' ''out.json'' [''cat'', ''dog'']))
     ''out.json'' =
   Some (JsonFile
     \<lparr>coco_info = [], coco_licenses = [],
      coco_categories =
        [\<lparr>c_id = 1, c_name = ''cat'', c_supercategory = ''none''\<rparr>,
         \<lparr>c_id = 2, c_name = ''dog'', c_supercategory = ''none''\<rparr>],
      coco_images =
        [\<lparr>i_id = 2, i_file_name = ''a.jpg'', i_width = 100, i_height = 50,
          i_date_captured = ''2023-01-01'', i_license = 0, i_coco_url = [], i_flickr_url = []\<rparr>,
         \<lparr>i_id = 3, i_file_name = ''b.PNG'', i_width = 64, i_height = 48,
          i_date_captured = ''2023-01-01'', i_license = 0, i_coco_url = [], i_flickr_url = []\<rparr>],
      coco_annotations =
        [\<lparr>a_id = 1, a_image_id = 2, a_category_id = 1, a_bbox = [10, 10, 50, 30],
          a_area = 1500, a_iscrowd = 0, a_segmentation = []\<rparr>,
         \<lparr>a_id = 2, a_image_id = 3, a_category_id = 2, a_bbox = [0, 0, 5, 7],
          a_area = 35, a_iscrowd = 0, a_segmentation = []\<rparr>,
         \<lparr>a_id = 3, a_image_id = 3, a_category_id = 1, a_bbox = [1, 2, 2, 2],
          a_area = 4, a_iscrowd = 0, a_segmentation = []\<rparr>]\<rparr>)"
  by code_simp

text \<open>
  C1, amended: in a COCO export that completes, the \<open>images\<close> table holds one entry per
  accepted image file, in enumeration order, and the image id of each is the 1-based
  position of its entry in the directory listing, skipped entries counted; it does not
  depend on the file name. When no entry of the listing is skipped, the k-th accepted
  image receives image id k.
\<close>

theorem coco_image_ids:
  assumes "dirs fs img_dir = Some listing"
    and "snd (convert_to_coco to_int fs img_dir ann_dir output_path class_names) = None"
  shows "\<exists>c. files (fst (convert_to_coco to_int fs img_dir ann_dir output_path class_names)) output_path
             = Some (JsonFile c) \<and>
           map (\<lambda>i. (i_id i, i_file_name i)) (coco_images c) =
             filter (\<lambda>(img_id, img_file). image_extension img_file) (py_enumerate 1 listing) \<and>
           (list_all image_extension listing \<longrightarrow>
              map i_id (coco_images c) = [1..int (length listing)])"
proof -
  from coco_document [OF assms] obtain c where
    c: "files (fst (convert_to_coco to_int fs img_dir ann_dir output_path class_names)) output_path
          = Some (JsonFile c)"
    and imgs: "map (\<lambda>i. (i_id i, i_file_name i)) (coco_images c) = accepted listing"
    by blast
  have "map i_id (coco_images c) = [1..int (length listing)]" if all: "list_all image_extension listing"
  proof -
    have "list_all (\<lambda>(img_id, img_file). image_extension img_file) (py_enumerate 1 listing)"
      using all by (auto simp: list_all_iff dest: py_enumerate_snd_mem)
    then have "accepted listing = py_enumerate 1 listing"
      by (simp add: accepted_def list_all_iff)
    then have "map fst (map (\<lambda>i. (i_id i, i_file_name i)) (coco_images c)) =
                 map fst (py_enumerate 1 listing)"
      using imgs by simp
    then show ?thesis by (simp add: map_fst_py_enumerate comp_def)
  qed
  then show ?thesis using c imgs by (auto simp: accepted_def)
qed

theorem coco_image_ids_witness:
  "dirs twin_fs ''img'' = Some [''a.jpg'', ''a.png''] \<and>
   snd (convert_to_coco ascii_int twin_fs ''img'' ''ann'' ''out.json'' [''cat'']) = None \<and>
   list_all image_extension [''a.jpg'', ''a.png''] \<and>
   (\<exists>c. files (fst (convert_to_coco ascii_int twin_fs ''img'' ''ann'' ''out.json'' [''cat'']))
           ''out.json'' = Some (JsonFile c) \<and>
        map (\<lambda>i. (i_id i, i_file_name i)) (coco_images c) =
          filter (\<lambda>(img_id, img_file). image_extension img_file)
            (py_enumerate 1 [''a.jpg'', ''a.png'']) \<and>
        map i_id (coco_images c) = [1..int (length [''a.jpg'', ''a.png''])])"
proof -
  have d: "dirs twin_fs ''img'' = Some [''a.jpg'', ''a.png'']"
    by code_simp
  have s: "snd (convert_to_coco ascii_int twin_fs ''img'' ''ann'' ''out.json'' [''cat'']) = None"
    by code_simp
  have a: "list_all image_extension [''a.jpg'', ''a.png'']"
    by code_simp
  from coco_image_ids [OF d s] obtain c where
    "files (fst (convert_to_coco ascii_int twin_fs ''img'' ''ann'' ''out.json'' [''cat'']))
           ''out.json'' = Some (JsonFile c)"
    "map (\<lambda>i. (i_id i, i_file_name i)) (coco_images c) =
          filter (\<lambda>(img_id, img_file). image_extension img_file)
            (py_enumerate 1 [''a.jpg'', ''a.png''])"
    "list_all image_extension [''a.jpg'', ''a.png''] \<longrightarrow>
        map i_id (coco_images c) = [1..int (length [''a.jpg'', ''a.png''])]"
    by blast
  with d s a show ?thesis by blast
qed

text \<open>
  C6: in a COCO export that completes, the ids of the \<open>annotations\<close> table are
  1, 2, 3, ... in processing order, one counter running over the annotations of all
  images: the table has one entry per parsed annotation and the list of its ids is the
  interval from 1 to the number of entries (so the ids are unique and grow by 1).
\<close>

theorem coco_annotation_ids:
  assumes "dirs fs img_dir = Some listing"
    and "snd (convert_to_coco to_int fs img_dir ann_dir output_path class_names) = None"
  shows "\<exists>c. files (fst (convert_to_coco to_int fs img_dir ann_dir output_path class_names)) output_path
             = Some (JsonFile c) \<and>
           length (coco_annotations c) = length (processed to_int fs ann_dir listing) \<and>
           map a_id (coco_annotations c) = [1..int (length (coco_annotations c))]"
proof -
  from coco_document [OF assms] obtain c where
    c: "files (fst (convert_to_coco to_int fs img_dir ann_dir output_path class_names)) output_path
          = Some (JsonFile c)"
    and e: "list_all2 (emitted (category_ids class_names))
              (py_enumerate 1 (processed to_int fs ann_dir listing)) (coco_annotations c)"
    by blast
  have len: "length (coco_annotations c) = length (processed to_int fs ann_dir listing)"
    using list_all2_lengthD [OF e] by (simp add: length_py_enumerate)
  have "map a_id (coco_annotations c) = map fst (py_enumerate 1 (processed to_int fs ann_dir listing))"
    using e by (rule emitted_ids)
  then have "map a_id (coco_annotations c) = [1..int (length (coco_annotations c))]"
    by (simp add: map_fst_py_enumerate len)
  then show ?thesis using c len by blast
qed

theorem coco_annotation_ids_witness:
  "dirs example_fs ''img'' = Some [''notes.txt'', ''a.jpg'', ''b.PNG''] \<and>
   snd (convert_to_coco ascii_int example_fs ''img'' ''ann'' ''out.json'' [''cat'', ''dog'']) = None \<and>
   (\<exists>c. files (fst (convert_to_coco ascii_int example_fs ''img'' ''ann'' ''out.json'' [''cat'', ''dog'']))
           ''out.json'' = Some (JsonFile c) \<and>
        length (coco_annotations c) =
          length (processed ascii_int example_fs ''ann'' [''notes.txt'', ''a.jpg'', ''b.PNG'']) \<and>
        map a_id (coco_annotations c) = [1..int (length (coco_annotations c))])"
proof (intro conjI)
  show d: "dirs example_fs ''img'' = Some [''notes.txt'', ''a.jpg'', ''b.PNG'']"
    by code_simp
  show s: "snd (convert_to_coco ascii_int example_fs ''img'' ''ann'' ''out.json'' [''cat'', ''dog'']) = None"
    by code_simp
  show "\<exists>c. files (fst (convert_to_coco ascii_int example_fs ''img'' ''ann'' ''out.json'' [''cat'', ''dog'']))
           ''out.json'' = Some (JsonFile c) \<and>
        length (coco_annotations c) =
          length (processed ascii_int example_fs ''ann'' [''notes.txt'', ''a.jpg'', ''b.PNG'']) \<and>
        map a_id (coco_annotations c) = [1..int (length (coco_annotations c))]"
    by (rule coco_annotation_ids [OF d s])
qed

text \<open>
  C5: in a COCO export that completes, the entry emitted for a parsed box
  \<open>(x1, y1, x2, y2)\<close> has \<open>bbox = [x1, y1, x2 - x1, y2 - y1]\<close> and
  \<open>area = (x2 - x1) * (y2 - y1)\<close>, in integer arithmetic: the table of (bbox, area)
  pairs is the list of parsed annotations, in processing order, mapped by these formulas.
\<close>

theorem coco_bbox_area:
  assumes "dirs fs img_dir = Some listing"
    and "snd (convert_to_coco to_int fs img_dir ann_dir output_path class_names) = None"
  shows "\<exists>c. files (fst (convert_to_coco to_int fs img_dir ann_dir output_path class_names)) output_path
             = Some (JsonFile c) \<and>
           map (\<lambda>e. (a_bbox e, a_area e)) (coco_annotations c) =
             map (\<lambda>(img_id, ann).
                    ([x1 (bndbox ann), y1 (bndbox ann),
                      x2 (bndbox ann) - x1 (bndbox ann), y2 (bndbox ann) - y1 (bndbox ann)],
                     (x2 (bndbox ann) - x1 (bndbox ann)) * (y2 (bndbox ann) - y1 (bndbox ann))))
               (processed to_int fs ann_dir listing)"
proof -
  from coco_document [OF assms] obtain c where
    c: "files (fst (convert_to_coco to_int fs img_dir ann_dir output_path class_names)) output_path
          = Some (JsonFile c)"
    and e: "list_all2 (emitted (category_ids class_names))
              (py_enumerate 1 (processed to_int fs ann_dir listing)) (coco_annotations c)"
    by blast
  from emitted_boxes [OF e] c show ?thesis
    by (simp only: map_snd_py_enumerate) blast
qed

theorem coco_bbox_area_witness:
  "dirs example_fs ''img'' = Some [''notes.txt'', ''a.jpg'', ''b.PNG''] \<and>
   snd (convert_to_coco ascii_int example_fs ''img'' ''ann'' ''out.json'' [''cat'', ''dog'']) = None \<and>
   (\<exists>c. files (fst (convert_to_coco ascii_int example_fs ''img'' ''ann'' ''out.json'' [''cat'', ''dog'']))
           ''out.json'' = Some (JsonFile c) \<and>
        map (\<lambda>e. (a_bbox e, a_area e)) (coco_annotations c) =
          [([10, 10, 50, 30], 1500), ([0, 0, 5, 7], 35), ([1, 2, 2, 2], 4)])"
proof -
  have d: "dirs example_fs ''img'' = Some [''notes.txt'', ''a.jpg'', ''b.PNG'']"
    by code_simp
  have s: "snd (convert_to_coco ascii_int example_fs ''img'' ''ann'' ''out.json'' [''cat'', ''dog'']) = None"
    by code_simp
  have v: "map (\<lambda>(img_id, ann).
                    ([x1 (bndbox ann), y1 (bndbox ann),
                      x2 (bndbox ann) - x1 (bndbox ann), y2 (bndbox ann) - y1 (bndbox ann)],
                     (x2 (bndbox ann) - x1 (bndbox ann)) * (y2 (bndbox ann) - y1 (bndbox ann))))
               (processed ascii_int example_fs ''ann'' [''notes.txt'', ''a.jpg'', ''b.PNG'']) =
           [([10, 10, 50, 30], 1500), ([0, 0, 5, 7], 35), ([1, 2, 2, 2], 4)]"
    by code_simp
  from coco_bbox_area [OF d s, unfolded v] d s show ?thesis
    by (intro conjI)
qed

text \<open>
  C4, as stated: \<open>category_id\<close> is 1 plus the index of the class name in the list of
  category names. With the name \<open>cat\<close> at the positions 0 and 2 of the list, the index of
  \<open>cat\<close> is 0, and the annotations of class \<open>cat\<close> are emitted with \<open>category_id\<close> 3.
\<close>

theorem coco_category_id_counterexample:
  "first_index [''cat'', ''dog'', ''cat''] ''cat'' = 0 \<and>
   files (fst (convert_to_coco ascii_int example_fs ''img'' ''ann'' ''out.json'' [''cat'', ''dog'', ''cat'']))
     ''out.json'' =
   Some (JsonFile
     \<lparr>coco_info = [], coco_licenses = [],
      coco_categories =
        [\<lparr>c_id = 1, c_name = ''cat'', c_supercategory = ''none''\<rparr>,
         \<lparr>c_id = 2, c_name = ''dog'', c_supercategory = ''none''\<rparr>,
         \<lparr>c_id = 3, c_name = ''cat'', c_supercategory = ''none''\<rparr>],
      coco_images =
        [\<lparr>i_id = 2, i_file_name = ''a.jpg'', i_width = 100, i_height = 50,
          i_date_captured = ''2023-01-01'', i_license = 0, i_coco_url = [], i_flickr_url = []\<rparr>,
         \<lparr>i_id = 3, i_file_name = ''b.PNG'', i_width = 64, i_height = 48,
          i_date_captured = ''2023-01-01'', i_license = 0, i_coco_url = [], i_flickr_url = []\<rparr>],
      coco_annotations =
        [\<lparr>a_id = 1, a_image_id = 2, a_category_id = 3, a_bbox = [10, 10, 50, 30],
          a_area = 1500, a_iscrowd = 0, a_segmentation = []\<rparr>,
         \<lparr>a_id = 2, a_image_id = 3, a_category_id = 2, a_bbox = [0, 0, 5, 7],
          a_area = 35, a_iscrowd = 0, a_segmentation = []\<rparr>,
         \<lparr>a_id = 3, a_image_id = 3, a_category_id = 3, a_bbox = [1, 2, 2, 2],
          a_area = 4, a_iscrowd = 0, a_segmentation = []\<rparr>]\<rparr>)"
  by code_simp

text \<open>
  C4, amended: in a COCO export that completes, the \<open>categories\<close> table lists each name
  of the list of category names with id equal to its 1-based position and supercategory
  \<open>none\<close>, and the \<open>category_id\<close> of every annotation is 1 plus the index of the last
  occurrence of its class name in that list; when the list has no repeated name this is
  1 plus the index of the name.
\<close>

theorem coco_category_ids:
  assumes "dirs fs img_dir = Some listing"
    and "snd (convert_to_coco to_int fs img_dir ann_dir output_path class_names) = None"
  shows "\<exists>c. files (fst (convert_to_coco to_int fs img_dir ann_dir output_path class_names)) output_path
             = Some (JsonFile c) \<and>
           coco_categories c =
             map (\<lambda>(i, cname). \<lparr>c_id = i, c_name = cname, c_supercategory = ''none''\<rparr>)
               (py_enumerate 1 class_names) \<and>
           list_all2 (category_of last_index class_names)
             (coco_annotations c) (processed to_int fs ann_dir listing) \<and>
           (distinct class_names \<longrightarrow>
              list_all2 (category_of first_index class_names)
                (coco_annotations c) (processed to_int fs ann_dir listing))"
proof -
  from coco_document [OF assms] obtain c where
    c: "files (fst (convert_to_coco to_int fs img_dir ann_dir output_path class_names)) output_path
          = Some (JsonFile c)"
    and cats: "coco_categories c =
             map (\<lambda>(i, cname). \<lparr>c_id = i, c_name = cname, c_supercategory = ''none''\<rparr>)
               (py_enumerate 1 class_names)"
    and e: "list_all2 (emitted (category_ids class_names))
              (py_enumerate 1 (processed to_int fs ann_dir listing)) (coco_annotations c)"
    by blast
  have "list_all2 (\<lambda>e (img_id, ann). \<exists>n. name ann = Some n \<and> n \<in> set class_names \<and>
                   a_category_id e = 1 + last_index class_names n)
          (coco_annotations c) (processed to_int fs ann_dir listing)"
    using emitted_categories [OF e] by (simp only: map_snd_py_enumerate)
  then have last: "list_all2 (category_of last_index class_names)
                     (coco_annotations c) (processed to_int fs ann_dir listing)"
    by (rule list_all2_mono) (auto simp: category_of_def)
  have "list_all2 (category_of first_index class_names)
          (coco_annotations c) (processed to_int fs ann_dir listing)" if "distinct class_names"
    using last
    by (rule list_all2_mono)
      (auto simp: category_of_def last_index_distinct [OF that] split: option.splits)
  then show ?thesis using c cats last by blast
qed

theorem coco_category_ids_witness:
  "dirs example_fs ''img'' = Some [''notes.txt'', ''a.jpg'', ''b.PNG''] \<and>
   snd (convert_to_coco ascii_int example_fs ''img'' ''ann'' ''out.json'' [''cat'', ''dog'']) = None \<and>
   distinct [''cat'', ''dog''] \<and>
   (\<exists>c. files (fst (convert_to_coco ascii_int example_fs ''img'' ''ann'' ''out.json'' [''cat'', ''dog'']))
           ''out.json'' = Some (JsonFile c) \<and>
        coco_categories c =
          [\<lparr>c_id = 1, c_name = ''cat'', c_supercategory = ''none''\<rparr>,
           \<lparr>c_id = 2, c_name = ''dog'', c_supercategory = ''none''\<rparr>] \<and>
        list_all2 (category_of first_index [''cat'', ''dog''])
          (coco_annotations c) (processed ascii_int example_fs ''ann'' [''notes.txt'', ''a.jpg'', ''b.PNG'']))"
proof -
  have d: "dirs example_fs ''img'' = Some [''notes.txt'', ''a.jpg'', ''b.PNG'']"
    by code_simp
  have s: "snd (convert_to_coco ascii_int example_fs ''img'' ''ann'' ''out.json'' [''cat'', ''dog'']) = None"
    by code_simp
  have a: "distinct [''cat'', ''dog'']"
    by code_simp
  have v: "map (\<lambda>(i, cname). \<lparr>c_id = i, c_name = cname, c_supercategory = ''none''\<rparr>)
             (py_enumerate 1 [''cat'', ''dog'']) =
           [\<lparr>c_id = 1, c_name = ''cat'', c_supercategory = ''none''\<rparr>,
            \<lparr>c_id = 2, c_name = ''dog'', c_supercategory = ''none''\<rparr>]"
    by code_simp
  from coco_category_ids [OF d s, unfolded v] obtain c where
    "files (fst (convert_to_coco ascii_int example_fs ''img'' ''ann'' ''out.json'' [''cat'', ''dog'']))
           ''out.json'' = Some (JsonFile c)"
    "coco_categories c =
          [\<lparr>c_id = 1, c_name = ''cat'', c_supercategory = ''none''\<rparr>,
           \<lparr>c_id = 2, c_name = ''dog'', c_supercategory = ''none''\<rparr>]"
    "distinct [''cat'', ''dog''] \<longrightarrow>
       list_all2 (category_of first_index [''cat'', ''dog''])
          (coco_annotations c) (processed ascii_int example_fs ''ann'' [''notes.txt'', ''a.jpg'', ''b.PNG''])"
    by blast
  with d s a show ?thesis by blast
qed

text \<open>
  C3: when the annotation file of some accepted image is missing or malformed (the
  parser fails on it) or names a class that is not in the list of category names, the
  COCO export ends with an exception and leaves the file system as it found it: the
  file at \<open>output_path\<close> is not written, not even in part.
\<close>

theorem coco_export_atomic:
  assumes "dirs fs img_dir = Some listing"
    and "img_file \<in> set listing"
    and "image_extension img_file"
    and "bad_annotation to_int fs ann_dir class_names img_file"
  shows "\<exists>e. convert_to_coco to_int fs img_dir ann_dir output_path class_names = (fs, Some e)"
proof (cases rule: convert_to_coco_cases [where to_int = to_int and fs = fs and img_dir = img_dir and
    ann_dir = ann_dir and output_path = output_path and class_names = class_names])
  case (listdir e)
  then show ?thesis by blast
next
  case (abort listing' e)
  then show ?thesis by blast
next
  case (written listing' c k)
  then have "snd (convert_to_coco to_int fs img_dir ann_dir output_path class_names) = None"
    by simp
  from coco_document [OF assms(1) this]
  have "list_all (entry_ok to_int fs img_dir ann_dir class_names) listing" by blast
  then have "entry_ok to_int fs img_dir ann_dir class_names img_file"
    using assms(2) by (simp add: list_all_iff)
  then have False
    using assms(3,4) by (auto simp: entry_ok_def bad_annotation_def split: sum.splits)
  then show ?thesis ..
qed

theorem coco_export_atomic_witness:
  "dirs example_fs ''img'' = Some [''notes.txt'', ''a.jpg'', ''b.PNG''] \<and>
   ''b.PNG'' \<in> set [''notes.txt'', ''a.jpg'', ''b.PNG''] \<and>
   image_extension ''b.PNG'' \<and>
   bad_annotation ascii_int example_fs ''ann'' [''cat''] ''b.PNG'' \<and>
   (\<exists>e. convert_to_coco ascii_int example_fs ''img'' ''ann'' ''out.json'' [''cat''] = (example_fs, Some e))"
proof (intro conjI)
  show d: "dirs example_fs ''img'' = Some [''notes.txt'', ''a.jpg'', ''b.PNG'']"
    by code_simp
  show m: "''b.PNG'' \<in> set [''notes.txt'', ''a.jpg'', ''b.PNG'']"
    by simp
  show i: "image_extension ''b.PNG''"
    by code_simp
  show b: "bad_annotation ascii_int example_fs ''ann'' [''cat''] ''b.PNG''"
    by code_simp
  show "\<exists>e. convert_to_coco ascii_int example_fs ''img'' ''ann'' ''out.json'' [''cat''] = (example_fs, Some e)"
    by (rule coco_export_atomic [OF d m i b])
qed

text \<open>
  C7: when the COCO export reaches an annotation whose class name is not in the list of
  category names (the entries of the listing before its image were all got past, its
  image opens, its annotation file parses, and the annotations before it in the file
  have known names), the run ends with the KeyError of that name. Nothing is written:
  no category is added for the name and no entry is emitted for the box.
\<close>

theorem coco_unknown_category:
  assumes "dirs fs img_dir = Some (pre @ img_file # post)"
    and "list_all (entry_ok to_int fs img_dir ann_dir class_names) pre"
    and "image_extension img_file"
    and "image_size fs (path_join img_dir img_file) = Inr wh"
    and "parse_halcon_annotation to_int fs (annotation_path ann_dir img_file) = Inr (as @ a # bs)"
    and "list_all (known_category class_names) as"
    and "\<not> known_category class_names a"
  shows "convert_to_coco to_int fs img_dir ann_dir output_path class_names =
           (fs, Some (KeyError (name a)))"
proof -
  define coco0 where "coco0 = categories_loop (py_enumerate 1 class_names)
            \<lparr>coco_info = [], coco_licenses = [], coco_categories = [],
             coco_images = [], coco_annotations = []\<rparr>"
  have "list_all (\<lambda>(img_id, img_file). entry_ok to_int fs img_dir ann_dir class_names img_file)
          (py_enumerate 1 pre)"
    using assms(2) by (auto simp: list_all_iff dest: py_enumerate_snd_mem)
  from coco_images_loop_total [OF this] obtain coco1 k1 where
    pre: "coco_images_loop to_int fs img_dir ann_dir (category_ids class_names) (py_enumerate 1 pre)
            coco0 1 = Inr (coco1, k1)"
    by (metis surj_pair)
  obtain width height where wh: "wh = (width, height)" by (cases wh)
  have step: "coco_images_loop to_int fs img_dir ann_dir (category_ids class_names)
            ((1 + int (length pre), img_file) # py_enumerate (1 + int (length pre) + 1) post)
            coco1 k1 = Inl (KeyError (name a))"
    using assms(3,4,5) coco_annotations_loop_KeyError [OF assms(6,7)]
    by (simp add: wh annotation_path_def Let_def)
  have "coco_images_loop to_int fs img_dir ann_dir (category_ids class_names)
          (py_enumerate 1 (pre @ img_file # post)) coco0 1 = Inl (KeyError (name a))"
    by (simp only: py_enumerate_append py_enumerate.simps coco_images_loop_append pre step
        sum.case prod.case)
  then show ?thesis
    using assms(1) by (simp add: convert_to_coco_def os_listdir_def coco0_def)
qed

theorem coco_unknown_category_witness:
  "convert_to_coco ascii_int stray_fs ''img'' ''ann'' ''out.json'' [''cat'', ''dog''] =
     (stray_fs, Some (KeyError (Some ''bird'')))"
proof -
  have 1: "dirs stray_fs ''img'' = Some ([''a.jpg''] @ ''c.jpeg'' # [])"
    by code_simp
  have 2: "list_all (entry_ok ascii_int stray_fs ''img'' ''ann'' [''cat'', ''dog'']) [''a.jpg'']"
    by code_simp
  have 3: "image_extension ''c.jpeg''"
    by code_simp
  have 4: "image_size stray_fs (path_join ''img'' ''c.jpeg'') = Inr (10, 10)"
    by code_simp
  have 5: "parse_halcon_annotation ascii_int stray_fs (annotation_path ''ann'' ''c.jpeg'') =
             Inr ([\<lparr>name = Some ''cat'', bndbox = \<lparr>x1 = 1, y1 = 1, x2 = 2, y2 = 2\<rparr>\<rparr>] @
                  \<lparr>name = Some ''bird'', bndbox = \<lparr>x1 = 0, y1 = 0, x2 = 1, y2 = 1\<rparr>\<rparr> #
                  [\<lparr>name = Some ''dog'', bndbox = \<lparr>x1 = 3, y1 = 3, x2 = 4, y2 = 4\<rparr>\<rparr>])"
    by code_simp
  have 6: "list_all (known_category [''cat'', ''dog''])
             [\<lparr>name = Some ''cat'', bndbox = \<lparr>x1 = 1, y1 = 1, x2 = 2, y2 = 2\<rparr>\<rparr>]"
    by code_simp
  have 7: "\<not> known_category [''cat'', ''dog'']
               \<lparr>name = Some ''bird'', bndbox = \<lparr>x1 = 0, y1 = 0, x2 = 1, y2 = 1\<rparr>\<rparr>"
    by code_simp
  from coco_unknown_category [OF 1 2 3 4 5 6 7] show ?thesis by simp
qed

section \<open>Claims about the annotation parser\<close>

lemma int_field_Inr: "int_field to_int path obj = Inr v \<longleftrightarrow> field_reads to_int path obj v"
  by (auto simp: int_field_def field_reads_def split: option.splits)

lemma int_field_Inl: "(\<exists>e. int_field to_int path obj = Inl e) \<longleftrightarrow> \<not> integer_field to_int path obj"
  by (auto simp: int_field_def integer_field_def split: option.splits)

lemma object_info_Inr: "object_info to_int obj = Inr info \<longleftrightarrow> object_reads to_int obj info"
proof
  assume "object_info to_int obj = Inr info"
  then show "object_reads to_int obj info"
    by (auto simp: object_info_def object_reads_def int_field_Inr
        split: option.splits sum.splits)
next
  assume r: "object_reads to_int obj info"
  then obtain n where n: "find_path [''name''] obj = Some n" "name info = etext n"
    by (auto simp: object_reads_def split: option.splits)
  from r have f: "int_field to_int [''bndbox'', ''x1''] obj = Inr (x1 (bndbox info))"
    "int_field to_int [''bndbox'', ''y1''] obj = Inr (y1 (bndbox info))"
    "int_field to_int [''bndbox'', ''x2''] obj = Inr (x2 (bndbox info))"
    "int_field to_int [''bndbox'', ''y2''] obj = Inr (y2 (bndbox info))"
    by (simp_all add: object_reads_def int_field_Inr)
  show "object_info to_int obj = Inr info"
    by (simp add: object_info_def n f)
qed

lemma object_info_Inl: "(\<exists>e. object_info to_int obj = Inl e) \<longleftrightarrow> \<not> complete_object to_int obj"
proof -
  have "(\<exists>info. object_info to_int obj = Inr info) \<longleftrightarrow> complete_object to_int obj"
    unfolding object_info_def complete_object_def
    using int_field_Inl [of to_int "[''bndbox'', ''x1'']" obj] int_field_Inl [of to_int "[''bndbox'', ''y1'']" obj]
      int_field_Inl [of to_int "[''bndbox'', ''x2'']" obj] int_field_Inl [of to_int "[''bndbox'', ''y2'']" obj]
    by (auto split: option.splits sum.splits)
  then show ?thesis by (cases "object_info to_int obj") auto
qed

lemma objects_loop_Inr:
  "objects_loop to_int objs acc = Inr anns \<longleftrightarrow>
     (\<exists>new. anns = acc @ new \<and> list_all2 (object_reads to_int) objs new)"
proof (induction objs arbitrary: acc)
  case Nil
  then show ?case by auto
next
  case (Cons obj objs)
  show ?case
  proof (cases "object_info to_int obj")
    case (Inl e)
    then have "\<not> object_reads to_int obj info" for info
      using object_info_Inr [of to_int obj info] by simp
    then show ?thesis using Inl by (auto simp: list_all2_Cons1)
  next
    case (Inr info)
    then have u: "object_reads to_int obj info' \<longleftrightarrow> info' = info" for info'
      using object_info_Inr [of to_int obj info'] by auto
    show ?thesis
      by (auto simp: Inr Cons.IH list_all2_Cons1 u)
  qed
qed

lemma objects_loop_Inl:
  "(\<exists>e. objects_loop to_int objs acc = Inl e) \<longleftrightarrow> \<not> list_all (complete_object to_int) objs"
proof (induction objs arbitrary: acc)
  case Nil
  then show ?case by simp
next
  case (Cons obj objs)
  show ?case
  proof (cases "object_info to_int obj")
    case (Inl e)
    then have "\<not> complete_object to_int obj" using object_info_Inl [of to_int obj] by blast
    then show ?thesis using Inl by simp
  next
    case (Inr info)
    then have "complete_object to_int obj" using object_info_Inl [of to_int obj] by auto
    then show ?thesis using Inr Cons.IH by simp
  qed
qed

text \<open>
  C9: for an annotation file that is an XML document, the parser returns exactly the
  list that holds one annotation per \<open>object\<close> node of the root, in file order, each
  carrying the text of the node's name field and the integers of its four corner fields;
  and it fails, returning no annotation at all, exactly when some object node lacks one
  of the five fields or has a corner whose text is not an integer: the corner is empty
  or \<open>int\<close> raises on its text. The statement is about every reading \<open>to_int\<close> of the
  builtin \<open>int\<close>, so it does not depend on which spellings of an integer the
  interpreter accepts.
\<close>

theorem parse_halcon_annotation_objects:
  assumes "ET_parse fs ann_path = Inr root"
  shows "(parse_halcon_annotation to_int fs ann_path = Inr anns \<longleftrightarrow>
            list_all2 (object_reads to_int) (findall ''object'' root) anns) \<and>
         ((\<exists>e. parse_halcon_annotation to_int fs ann_path = Inl e) \<longleftrightarrow>
            \<not> list_all (complete_object to_int) (findall ''object'' root))"
  using assms by (simp add: parse_halcon_annotation_def objects_loop_Inr objects_loop_Inl)

theorem parse_halcon_annotation_objects_witness:
  "ET_parse example_fs ''ann/b.xml'' =
     Inr (Elem ''annotation'' None
            [halcon_object ''dog'' ''0'' ''0'' ''5'' ''7'',
             halcon_object ''cat'' ''1'' ''2'' ''3'' ''4'']) \<and>
   parse_halcon_annotation ascii_int example_fs ''ann/b.xml'' =
     Inr [\<lparr>name = Some ''dog'', bndbox = \<lparr>x1 = 0, y1 = 0, x2 = 5, y2 = 7\<rparr>\<rparr>,
          \<lparr>name = Some ''cat'', bndbox = \<lparr>x1 = 1, y1 = 2, x2 = 3, y2 = 4\<rparr>\<rparr>] \<and>
   list_all (complete_object ascii_int)
     (findall ''object''
        (Elem ''annotation'' None
           [halcon_object ''dog'' ''0'' ''0'' ''5'' ''7'',
            halcon_object ''cat'' ''1'' ''2'' ''3'' ''4'']))"
proof -
  have p: "ET_parse example_fs ''ann/b.xml'' =
     Inr (Elem ''annotation'' None
            [halcon_object ''dog'' ''0'' ''0'' ''5'' ''7'',
             halcon_object ''cat'' ''1'' ''2'' ''3'' ''4''])"
    by code_simp
  have r: "list_all2 (object_reads ascii_int)
     (findall ''object''
        (Elem ''annotation'' None
           [halcon_object ''dog'' ''0'' ''0'' ''5'' ''7'',
            halcon_object ''cat'' ''1'' ''2'' ''3'' ''4'']))
     [\<lparr>name = Some ''dog'', bndbox = \<lparr>x1 = 0, y1 = 0, x2 = 5, y2 = 7\<rparr>\<rparr>,
      \<lparr>name = Some ''cat'', bndbox = \<lparr>x1 = 1, y1 = 2, x2 = 3, y2 = 4\<rparr>\<rparr>]"
    by code_simp
  note t = parse_halcon_annotation_objects [OF p,
      of ascii_int "[\<lparr>name = Some ''dog'', bndbox = \<lparr>x1 = 0, y1 = 0, x2 = 5, y2 = 7\<rparr>\<rparr>,
           \<lparr>name = Some ''cat'', bndbox = \<lparr>x1 = 1, y1 = 2, x2 = 3, y2 = 4\<rparr>\<rparr>]"]
  have a: "parse_halcon_annotation ascii_int example_fs ''ann/b.xml'' =
     Inr [\<lparr>name = Some ''dog'', bndbox = \<lparr>x1 = 0, y1 = 0, x2 = 5, y2 = 7\<rparr>\<rparr>,
          \<lparr>name = Some ''cat'', bndbox = \<lparr>x1 = 1, y1 = 2, x2 = 3, y2 = 4\<rparr>\<rparr>]"
    using t r by blast
  then have "\<not> (\<exists>e. parse_halcon_annotation ascii_int example_fs ''ann/b.xml'' = Inl e)"
    by simp
  then have c: "list_all (complete_object ascii_int)
     (findall ''object''
        (Elem ''annotation'' None
           [halcon_object ''dog'' ''0'' ''0'' ''5'' ''7'',
            halcon_object ''cat'' ''1'' ''2'' ''3'' ''4'']))"
    using t by blast
  show ?thesis using p a c by (intro conjI)
qed

section \<open>Claims about the VOC exporter\<close>

lemma voc_images_loop_ids:
  "voc_images_loop to_int img_dir ann_dir output_dir entries fs ids = (fs', Inr ids') \<Longrightarrow>
     ids' = ids @ image_ids entries"
proof (induction entries arbitrary: fs ids)
  case Nil
  then show ?case by (simp add: image_ids_def)
next
  case (Cons img_file rest)
  show ?case
  proof (cases "image_extension img_file")
    case False
    then show ?thesis using Cons by (simp add: image_ids_def)
  next
    case True
    then obtain fs1 where
      "voc_images_loop to_int img_dir ann_dir output_dir rest fs1 (ids @ [fst (splitext img_file)])
         = (fs', Inr ids')"
      using Cons.prems by (auto split: sum.splits)
    from Cons.IH [OF this] show ?thesis using True by (simp add: image_ids_def)
  qed
qed

lemma split_on_no_sep: "c \<notin> set s \<Longrightarrow> split_on c s = [s]"
  by (induction s) auto

lemma split_on_append: "c \<notin> set s \<Longrightarrow> split_on c (s @ c # rest) = s # split_on c rest"
  by (induction s) auto

lemma split_on_join:
  "ids \<noteq> [] \<Longrightarrow> \<forall>i \<in> set ids. c \<notin> set i \<Longrightarrow> split_on c (join_str [c] ids) = ids"
proof (induction "[c]" ids rule: join_str.induct)
  case 1
  then show ?case by simp
next
  case (2 x)
  then show ?case by (simp add: split_on_no_sep)
next
  case (3 x y ys)
  then show ?case by (simp add: split_on_append)
qed

text \<open>
  C2, as stated: the lines of \<open>trainval.txt\<close> are free of duplicates. In \<open>twin_fs\<close> the
  directory holds \<open>a.jpg\<close> and \<open>a.png\<close>; both are accepted, both have the name \<open>a\<close>
  without extension, and the file written is the line \<open>a\<close> twice.
\<close>

theorem voc_trainval_counterexample:
  "files (fst (convert_to_voc ascii_int twin_fs ''img'' ''ann'' ''out'' [''cat'']))
     ''out/ImageSets/Main/trainval.txt'' =
   Some (TextFile [CHR ''a'', CHR 0x0A, CHR ''a''])"
  by code_simp

text \<open>
  C2, amended: in a VOC export that completes, \<open>trainval.txt\<close> holds the names without
  extension of the accepted image files, in enumeration order, joined by newlines, the
  last line unterminated. When at least one file is accepted and no name holds a
  newline, splitting the file at its newlines gives back that list: one line per
  accepted image file. Two accepted files that differ in their extension only give the
  same line twice, so the lines are as free of duplicates as the names without extension.
\<close>

theorem voc_trainval:
  assumes "dirs fs img_dir = Some listing"
    and "snd (convert_to_voc to_int fs img_dir ann_dir output_dir class_names) = None"
  shows "files (fst (convert_to_voc to_int fs img_dir ann_dir output_dir class_names))
           (path_join output_dir ''ImageSets/Main/trainval.txt'') =
           Some (TextFile (join_str [CHR 0x0A] (image_ids listing))) \<and>
         (image_ids listing \<noteq> [] \<and> (\<forall>i \<in> set (image_ids listing). CHR 0x0A \<notin> set i) \<longrightarrow>
            split_on (CHR 0x0A) (join_str [CHR 0x0A] (image_ids listing)) = image_ids listing)"
proof -
  obtain fs' r where loop:
    "voc_images_loop to_int img_dir ann_dir output_dir listing fs [] = (fs', r)"
    by (cases "voc_images_loop to_int img_dir ann_dir output_dir listing fs []")
  show ?thesis
  proof (cases r)
    case (Inl e)
    then show ?thesis using assms loop by (simp add: convert_to_voc_def os_listdir_def)
  next
    case (Inr ids)
    then have "ids = image_ids listing" using voc_images_loop_ids [of _ _ _ _ _ _ "[]"] loop by simp
    then show ?thesis using assms(1) loop Inr
      by (simp add: convert_to_voc_def os_listdir_def write_file_def split_on_join)
  qed
qed

theorem voc_trainval_witness:
  "dirs example_fs ''img'' = Some [''notes.txt'', ''a.jpg'', ''b.PNG''] \<and>
   snd (convert_to_voc ascii_int example_fs ''img'' ''ann'' ''out'' [''cat'', ''dog'']) = None \<and>
   image_ids [''notes.txt'', ''a.jpg'', ''b.PNG''] = [''a'', ''b''] \<and>
   files (fst (convert_to_voc ascii_int example_fs ''img'' ''ann'' ''out'' [''cat'', ''dog'']))
     (path_join ''out'' ''ImageSets/Main/trainval.txt'') =
     Some (TextFile (join_str [CHR 0x0A] [''a'', ''b''])) \<and>
   split_on (CHR 0x0A) (join_str [CHR 0x0A] [''a'', ''b'']) = [''a'', ''b'']"
proof -
  have d: "dirs example_fs ''img'' = Some [''notes.txt'', ''a.jpg'', ''b.PNG'']"
    by code_simp
  have s: "snd (convert_to_voc ascii_int example_fs ''img'' ''ann'' ''out'' [''cat'', ''dog'']) = None"
    by code_simp
  have i: "image_ids [''notes.txt'', ''a.jpg'', ''b.PNG''] = [''a'', ''b'']"
    by code_simp
  have n: "[''a'', ''b''] \<noteq> [] \<and> (\<forall>i \<in> set [''a'', ''b'']. CHR 0x0A \<notin> set i)"
    by simp
  from voc_trainval [OF d s, unfolded i] n d s i show ?thesis by blast
qed

lemma int_field_no_KeyError: "int_field to_int path obj \<noteq> Inl (KeyError k)"
  by (simp add: int_field_def split: option.splits)

lemma object_info_no_KeyError: "object_info to_int obj \<noteq> Inl (KeyError k)"
  using int_field_no_KeyError
  by (auto simp: object_info_def split: option.splits sum.splits)

lemma objects_loop_no_KeyError: "objects_loop to_int objs acc \<noteq> Inl (KeyError k)"
  using object_info_no_KeyError
  by (induction objs arbitrary: acc) (auto split: sum.splits)

lemma parse_halcon_annotation_no_KeyError: "parse_halcon_annotation to_int fs p \<noteq> Inl (KeyError k)"
  using objects_loop_no_KeyError
  by (auto simp: parse_halcon_annotation_def ET_parse_def split: sum.splits option.splits file_content.splits)

lemma voc_image_no_KeyError: "voc_image to_int img_dir ann_dir output_dir img_file fs \<noteq> Inl (KeyError k)"
  using parse_halcon_annotation_no_KeyError
  by (auto simp: voc_image_def image_size_def Let_def
      split: sum.splits option.splits file_content.splits prod.splits)

lemma voc_images_loop_no_KeyError:
  "snd (voc_images_loop to_int img_dir ann_dir output_dir entries fs ids) \<noteq> Inl (KeyError k)"
  using voc_image_no_KeyError
  by (induction entries arbitrary: fs ids) (auto split: sum.splits)

text \<open>
  C10: the VOC exporter never reads its list of category names. Two calls that differ
  in that list only end in the same file system with the same outcome, and the outcome
  is never the KeyError of an unknown category.
\<close>

theorem voc_ignores_class_names:
  "convert_to_voc to_int fs img_dir ann_dir output_dir class_names =
     convert_to_voc to_int fs img_dir ann_dir output_dir class_names' \<and>
   snd (convert_to_voc to_int fs img_dir ann_dir output_dir class_names) \<noteq> Some (KeyError k)"
proof
  show "convert_to_voc to_int fs img_dir ann_dir output_dir class_names =
          convert_to_voc to_int fs img_dir ann_dir output_dir class_names'"
    by (simp add: convert_to_voc_def)
  show "snd (convert_to_voc to_int fs img_dir ann_dir output_dir class_names) \<noteq> Some (KeyError k)"
  proof (cases "dirs fs img_dir")
    case None
    then show ?thesis by (simp add: convert_to_voc_def os_listdir_def)
  next
    case (Some listing)
    then show ?thesis
      using voc_images_loop_no_KeyError [of to_int img_dir ann_dir output_dir listing fs "[]" k]
      by (auto simp: convert_to_voc_def os_listdir_def split: prod.splits sum.splits)
  qed
qed

theorem voc_ignores_class_names_witness:
  "convert_to_voc ascii_int example_fs ''img'' ''ann'' ''out'' [''cat'', ''dog''] =
     convert_to_voc ascii_int example_fs ''img'' ''ann'' ''out'' [] \<and>
   snd (convert_to_voc ascii_int example_fs ''img'' ''ann'' ''out'' []) = None"
proof -
  have "snd (convert_to_voc ascii_int example_fs ''img'' ''ann'' ''out'' []) = None"
    by code_simp
  then show ?thesis
    using voc_ignores_class_names [of ascii_int example_fs "''img''" "''ann''" "''out''" "[''cat'', ''dog'']" "[]"]
    by simp
qed

subsection \<open>Paths\<close>

lemma append_after_separator:
  assumes "c \<notin> set s1" "c \<notin> set s2"
    and "p1 = [] \<or> last p1 = c" "p2 = [] \<or> last p2 = c"
    and "p1 @ s1 = p2 @ s2"
  shows "s1 = s2"
proof -
  from assms(5) obtain us where
    "(p1 = p2 @ us \<and> us @ s1 = s2) \<or> (p1 @ us = p2 \<and> s1 = us @ s2)"
    by (auto simp: append_eq_append_conv2)
  then show ?thesis
  proof
    assume a: "p1 = p2 @ us \<and> us @ s1 = s2"
    have "us = []"
    proof (rule ccontr)
      assume n: "us \<noteq> []"
      then have "last p1 = last us" "p1 \<noteq> []" using a by simp_all
      then have "c \<in> set us" using assms(3) n last_in_set by metis
      then show False using a assms(2) by auto
    qed
    then show ?thesis using a by simp
  next
    assume a: "p1 @ us = p2 \<and> s1 = us @ s2"
    have "us = []"
    proof (rule ccontr)
      assume n: "us \<noteq> []"
      then have "last p2 = last us" "p2 \<noteq> []" using a by auto
      then have "c \<in> set us" using assms(4) n last_in_set by metis
      then show False using a assms(1) by auto
    qed
    then show ?thesis using a by simp
  qed
qed

lemma path_join_no_separator:
  assumes "CHR ''/'' \<notin> set s"
  shows "\<exists>p. (p = [] \<or> last p = CHR ''/'') \<and> path_join a s = p @ s"
proof -
  have h: "\<not> (s \<noteq> [] \<and> hd s = CHR ''/'')" using assms hd_in_set by metis
  show ?thesis
  proof (cases "a = [] \<or> last a = CHR ''/''")
    case True
    then have "path_join a s = a @ s" using h by (auto simp: path_join_def)
    then show ?thesis using True by blast
  next
    case False
    then have "path_join a s = (a @ ''/'') @ s" using h by (auto simp: path_join_def)
    moreover have "last (a @ ''/'') = CHR ''/''" by simp
    ultimately show ?thesis by blast
  qed
qed

lemma path_join_inject:
  assumes "CHR ''/'' \<notin> set s1" "CHR ''/'' \<notin> set s2" "path_join a s1 = path_join b s2"
  shows "s1 = s2"
proof -
  from path_join_no_separator [OF assms(1), of a] obtain p1 where
    p1: "p1 = [] \<or> last p1 = CHR ''/''" "path_join a s1 = p1 @ s1" by blast
  from path_join_no_separator [OF assms(2), of b] obtain p2 where
    p2: "p2 = [] \<or> last p2 = CHR ''/''" "path_join b s2 = p2 @ s2" by blast
  have "p1 @ s1 = p2 @ s2" using assms(3) p1(2) p2(2) by simp
  from append_after_separator [OF assms(1,2) p1(1) p2(1) this] show ?thesis .
qed

lemma splitext_subset: "set (fst (splitext p)) \<subseteq> set p"
  by (auto simp: splitext_def Let_def dest: in_set_takeD)

lemma xml_name_no_separator:
  "CHR ''/'' \<notin> set f \<Longrightarrow> CHR ''/'' \<notin> set (fst (splitext f) @ ''.xml'')"
  using splitext_subset [of f] by auto

lemma same_annotation_file:
  assumes "CHR ''/'' \<notin> set f" "CHR ''/'' \<notin> set g"
    and "path_join a (fst (splitext f) @ ''.xml'') = path_join b (fst (splitext g) @ ''.xml'')"
  shows "annotation_path ann_dir f = annotation_path ann_dir g"
proof -
  have "fst (splitext f) @ ''.xml'' = fst (splitext g) @ ''.xml''"
    using path_join_inject [OF xml_name_no_separator [OF assms(1)]
        xml_name_no_separator [OF assms(2)] assms(3)] .
  then show ?thesis by (simp add: annotation_path_def)
qed

lemma last_path_join: "b \<noteq> [] \<Longrightarrow> last (path_join a b) = last b"
  by (simp add: path_join_def)

lemma voc_annotation_path_not_trainval:
  "voc_annotation_path output_dir f \<noteq> path_join output_dir ''ImageSets/Main/trainval.txt''"
proof
  assume "voc_annotation_path output_dir f = path_join output_dir ''ImageSets/Main/trainval.txt''"
  then have "last (voc_annotation_path output_dir f) =
               last (path_join output_dir ''ImageSets/Main/trainval.txt'')"
    by simp
  then show False by (simp add: voc_annotation_path_def last_path_join)
qed

subsection \<open>The documents the VOC exporter builds\<close>

lemma voc_objects_loop_eq:
  "voc_objects_loop anns root = Elem (tag root) (etext root) (children root @ map voc_object anns)"
  by (induction anns arbitrary: root) (simp_all add: add_child_def)

lemma tag_voc_object: "tag (voc_object ann) = ''object''"
  by (simp add: voc_object_def)

lemma findall_voc_document:
  "findall ''object'' (voc_objects_loop anns (voc_header img_file img_path width height)) =
     map voc_object anns"
proof -
  have "filter (\<lambda>c. tag c = ''object'') (map voc_object anns) = map voc_object anns"
    by (induction anns) (simp_all add: tag_voc_object)
  then show ?thesis
    by (simp add: voc_objects_loop_eq findall_def voc_header_def leaf_def)
qed

lemma voc_box_text_voc_object:
  "voc_box_text (voc_object ann) = map (\<lambda>v. Some (py_str v)) (corners ann)"
  by (simp add: voc_box_text_def field_text_def find_path_def findall_def voc_object_def
      leaf_def corners_def)

lemma voc_box_voc_object: "voc_box (voc_object ann) = map Inr (corners ann)"
  by (simp add: voc_box_def int_field_def find_path_def findall_def voc_object_def
      leaf_def corners_def ascii_int_str)

lemma object_info_voc_object: "object_info to_int (voc_object ann) = Inl AttributeError"
  by (simp add: object_info_def int_field_def find_path_def findall_def voc_object_def leaf_def)

lemma objects_loop_voc_objects:
  "objects_loop to_int (map voc_object anns) acc = Inr r \<Longrightarrow> anns = [] \<and> r = acc"
  by (cases anns) (simp_all add: object_info_voc_object)

lemma parse_halcon_annotation_cong:
  "files fs1 p = files fs2 p \<Longrightarrow> parse_halcon_annotation to_int fs1 p = parse_halcon_annotation to_int fs2 p"
  by (simp add: parse_halcon_annotation_def ET_parse_def)

lemma voc_document_for_cong:
  "files fs1 p = files fs2 p \<Longrightarrow> voc_document_for to_int fs0 fs1 q p = voc_document_for to_int fs0 fs2 q p"
  by (simp add: voc_document_for_def split: sum.splits)

lemma parse_converted:
  assumes "files fs q = files fs0 q \<or> voc_document_for to_int fs0 fs q q"
    and "parse_halcon_annotation to_int fs q = Inr anns"
  shows "parse_halcon_annotation to_int fs0 q = Inr anns"
  using assms(1)
proof
  assume "files fs q = files fs0 q"
  then show ?thesis using assms(2) parse_halcon_annotation_cong by metis
next
  assume "voc_document_for to_int fs0 fs q q"
  then obtain anns0 doc where
    p0: "parse_halcon_annotation to_int fs0 q = Inr anns0" and
    doc: "files fs q = Some (XmlFile doc)" "findall ''object'' doc = map voc_object anns0"
    by (auto simp: voc_document_for_def split: sum.splits option.splits file_content.splits)
  have "objects_loop to_int (map voc_object anns0) [] = Inr anns"
    using assms(2) doc by (simp add: parse_halcon_annotation_def ET_parse_def)
  then have "anns0 = [] \<and> anns = []" by (rule objects_loop_voc_objects)
  then show ?thesis using p0 by simp
qed

lemma voc_image_Inr:
  assumes "voc_image to_int img_dir ann_dir output_dir img_file fs = Inr fs1"
  obtains anns doc where
    "parse_halcon_annotation to_int fs (annotation_path ann_dir img_file) = Inr anns"
    "fs1 = write_file fs (voc_annotation_path output_dir img_file) (XmlFile doc)"
    "findall ''object'' doc = map voc_object anns"
proof -
  from assms obtain width height anns where
    p: "parse_halcon_annotation to_int fs (annotation_path ann_dir img_file) = Inr anns" and
    w: "fs1 = write_file fs (voc_annotation_path output_dir img_file)
              (XmlFile (voc_objects_loop anns
                 (voc_header img_file (path_join img_dir img_file) width height)))"
    by (auto simp: voc_image_def Let_def annotation_path_def voc_annotation_path_def
        split: sum.splits prod.splits)
  show ?thesis using that [OF p w findall_voc_document] .
qed

lemma voc_images_loop_frame:
  "voc_images_loop to_int img_dir ann_dir output_dir entries fs ids = (fs', r) \<Longrightarrow>
   \<forall>g \<in> set entries. image_extension g \<longrightarrow> voc_annotation_path output_dir g \<noteq> p \<Longrightarrow>
     files fs' p = files fs p"
proof (induction entries arbitrary: fs ids)
  case Nil
  then show ?case by simp
next
  case (Cons img_file rest)
  show ?case
  proof (cases "image_extension img_file")
    case False
    then show ?thesis using Cons by simp
  next
    case True
    show ?thesis
    proof (cases "voc_image to_int img_dir ann_dir output_dir img_file fs")
      case (Inl e)
      then show ?thesis using Cons.prems True by simp
    next
      case (Inr fs1)
      then have loop: "voc_images_loop to_int img_dir ann_dir output_dir rest fs1
                         (ids @ [fst (splitext img_file)]) = (fs', r)"
        using Cons.prems True by simp
      have "files fs' p = files fs1 p" using Cons.IH [OF loop] Cons.prems(2) by simp
      moreover have "files fs1 p = files fs p"
        using Inr Cons.prems(2) True
        by (elim voc_image_Inr) (auto simp: write_file_def)
      ultimately show ?thesis by simp
    qed
  qed
qed

lemma voc_images_loop_documents:
  assumes "voc_images_loop to_int img_dir ann_dir output_dir entries fs ids = (fs', Inr ids')"
    and "\<forall>f \<in> set L. CHR ''/'' \<notin> set f"
    and "set entries \<subseteq> set L"
    and "\<forall>f \<in> set L. files fs (annotation_path ann_dir f) = files fs0 (annotation_path ann_dir f) \<or>
           voc_document_for to_int fs0 fs (annotation_path ann_dir f) (annotation_path ann_dir f)"
  shows "\<forall>f \<in> set entries. image_extension f \<longrightarrow>
           voc_document_for to_int fs0 fs' (annotation_path ann_dir f) (voc_annotation_path output_dir f)"
  using assms
proof (induction entries arbitrary: fs ids)
  case Nil
  then show ?case by simp
next
  case (Cons img_file rest)
  note wf = Cons.prems(2)
  have sub: "set rest \<subseteq> set L" and inL: "img_file \<in> set L" using Cons.prems(3) by simp_all
  show ?case
  proof (cases "image_extension img_file")
    case False
    then have "voc_images_loop to_int img_dir ann_dir output_dir rest fs ids = (fs', Inr ids')"
      using Cons.prems(1) by simp
    from Cons.IH [OF this wf sub Cons.prems(4)] show ?thesis using False by simp
  next
    case True
    from Cons.prems(1) True obtain fs1 where
      step: "voc_image to_int img_dir ann_dir output_dir img_file fs = Inr fs1" and
      loop: "voc_images_loop to_int img_dir ann_dir output_dir rest fs1
               (ids @ [fst (splitext img_file)]) = (fs', Inr ids')"
      by (auto split: sum.splits)
    from step obtain anns doc where
      p: "parse_halcon_annotation to_int fs (annotation_path ann_dir img_file) = Inr anns" and
      w: "fs1 = write_file fs (voc_annotation_path output_dir img_file) (XmlFile doc)" and
      d: "findall ''object'' doc = map voc_object anns"
      by (rule voc_image_Inr)
    have p0: "parse_halcon_annotation to_int fs0 (annotation_path ann_dir img_file) = Inr anns"
      using parse_converted [OF _ p] Cons.prems(4) inL by blast
    have written: "voc_document_for to_int fs0 fs1 (annotation_path ann_dir img_file)
                     (voc_annotation_path output_dir img_file)"
      by (simp add: voc_document_for_def p0 w write_file_def d)
    have inv1: "\<forall>f \<in> set L.
        files fs1 (annotation_path ann_dir f) = files fs0 (annotation_path ann_dir f) \<or>
        voc_document_for to_int fs0 fs1 (annotation_path ann_dir f) (annotation_path ann_dir f)"
    proof
      fix f assume f: "f \<in> set L"
      show "files fs1 (annotation_path ann_dir f) = files fs0 (annotation_path ann_dir f) \<or>
            voc_document_for to_int fs0 fs1 (annotation_path ann_dir f) (annotation_path ann_dir f)"
      proof (cases "annotation_path ann_dir f = voc_annotation_path output_dir img_file")
        case True
        then have "annotation_path ann_dir f = annotation_path ann_dir img_file"
          using same_annotation_file [of f img_file ann_dir "path_join output_dir ''Annotations''"]
            wf f inL
          by (simp add: annotation_path_def voc_annotation_path_def)
        then show ?thesis using written True by simp
      next
        case False
        then have "files fs1 (annotation_path ann_dir f) = files fs (annotation_path ann_dir f)"
          by (simp add: w write_file_def)
        then show ?thesis
          using Cons.prems(4) f voc_document_for_cong [of fs1 "annotation_path ann_dir f" fs]
          by auto
      qed
    qed
    note IH = Cons.IH [OF loop wf sub inv1]
    have first: "voc_document_for to_int fs0 fs' (annotation_path ann_dir img_file)
                   (voc_annotation_path output_dir img_file)"
    proof (cases "\<exists>g \<in> set rest. image_extension g \<and>
                    voc_annotation_path output_dir g = voc_annotation_path output_dir img_file")
      case True
      then obtain g where g: "g \<in> set rest" "image_extension g"
        "voc_annotation_path output_dir g = voc_annotation_path output_dir img_file"
        by blast
      have "annotation_path ann_dir g = annotation_path ann_dir img_file"
        using same_annotation_file [of g img_file "path_join output_dir ''Annotations''"
            "path_join output_dir ''Annotations''" ann_dir] wf g(1,3) sub inL
        by (auto simp: voc_annotation_path_def)
      then show ?thesis using IH g by metis
    next
      case False
      then have "files fs' (voc_annotation_path output_dir img_file) =
                   files fs1 (voc_annotation_path output_dir img_file)"
        using voc_images_loop_frame [OF loop] by blast
      then show ?thesis using written voc_document_for_cong by metis
    qed
    show ?thesis using first IH by simp
  qed
qed

text \<open>
  C8: in a VOC export that completes, for every accepted image file the file
  \<open>Annotations/<id>.xml\<close> is a document with one \<open>object\<close> block per annotation parsed
  from the image's annotation file, in order, and the texts of \<open>xmin\<close>, \<open>ymin\<close>,
  \<open>xmax\<close>, \<open>ymax\<close> in each block are the decimal strings of the parsed \<open>x1\<close>, \<open>y1\<close>,
  \<open>x2\<close>, \<open>y2\<close>; read back as integers they are these corners, unchanged. The entries
  of the listing are file names: they hold no path separator.
\<close>

theorem voc_boxes_roundtrip:
  assumes "dirs fs img_dir = Some listing"
    and "list_all (\<lambda>f. CHR ''/'' \<notin> set f) listing"
    and "snd (convert_to_voc to_int fs img_dir ann_dir output_dir class_names) = None"
    and "img_file \<in> set listing"
    and "image_extension img_file"
  shows "\<exists>anns doc.
           parse_halcon_annotation to_int fs (annotation_path ann_dir img_file) = Inr anns \<and>
           files (fst (convert_to_voc to_int fs img_dir ann_dir output_dir class_names))
             (voc_annotation_path output_dir img_file) = Some (XmlFile doc) \<and>
           map voc_box_text (findall ''object'' doc) =
             map (\<lambda>ann. map (\<lambda>v. Some (py_str v)) (corners ann)) anns \<and>
           map voc_box (findall ''object'' doc) = map (\<lambda>ann. map Inr (corners ann)) anns"
proof -
  obtain fs' r where loop:
    "voc_images_loop to_int img_dir ann_dir output_dir listing fs [] = (fs', r)"
    by (cases "voc_images_loop to_int img_dir ann_dir output_dir listing fs []")
  show ?thesis
  proof (cases r)
    case (Inl e)
    then show ?thesis using assms(1,3) loop by (simp add: convert_to_voc_def os_listdir_def)
  next
    case (Inr ids)
    have wf: "\<forall>f \<in> set listing. CHR ''/'' \<notin> set f" using assms(2) by (simp add: list_all_iff)
    have "voc_document_for to_int fs fs' (annotation_path ann_dir img_file)
            (voc_annotation_path output_dir img_file)"
      using voc_images_loop_documents [OF loop [unfolded Inr] wf, of fs] assms(4,5) by simp
    then obtain anns doc where
      p: "parse_halcon_annotation to_int fs (annotation_path ann_dir img_file) = Inr anns" and
      f: "files fs' (voc_annotation_path output_dir img_file) = Some (XmlFile doc)" and
      d: "findall ''object'' doc = map voc_object anns"
      by (auto simp: voc_document_for_def split: sum.splits option.splits file_content.splits)
    have "fst (convert_to_voc to_int fs img_dir ann_dir output_dir class_names) =
            write_file fs' (path_join output_dir ''ImageSets/Main/trainval.txt'')
              (TextFile (join_str [CHR 0x0A] ids))"
      using assms(1) loop Inr by (simp add: convert_to_voc_def os_listdir_def)
    then have F: "files (fst (convert_to_voc to_int fs img_dir ann_dir output_dir class_names))
             (voc_annotation_path output_dir img_file) = Some (XmlFile doc)"
      using f voc_annotation_path_not_trainval [of output_dir img_file]
      by (simp add: write_file_def)
    have T: "map voc_box_text (findall ''object'' doc) =
             map (\<lambda>ann. map (\<lambda>v. Some (py_str v)) (corners ann)) anns"
      by (simp add: d voc_box_text_voc_object comp_def)
    have B: "map voc_box (findall ''object'' doc) = map (\<lambda>ann. map Inr (corners ann)) anns"
      by (simp add: d voc_box_voc_object comp_def)
    show ?thesis using p F T B by blast
  qed
qed

theorem voc_boxes_roundtrip_witness:
  "dirs example_fs ''img'' = Some [''notes.txt'', ''a.jpg'', ''b.PNG''] \<and>
   list_all (\<lambda>f. CHR ''/'' \<notin> set f) [''notes.txt'', ''a.jpg'', ''b.PNG''] \<and>
   snd (convert_to_voc ascii_int example_fs ''img'' ''ann'' ''out'' [''cat'', ''dog'']) = None \<and>
   ''b.PNG'' \<in> set [''notes.txt'', ''a.jpg'', ''b.PNG''] \<and>
   image_extension ''b.PNG'' \<and>
   (\<exists>anns doc.
       parse_halcon_annotation ascii_int example_fs (annotation_path ''ann'' ''b.PNG'') = Inr anns \<and>
       files (fst (convert_to_voc ascii_int example_fs ''img'' ''ann'' ''out'' [''cat'', ''dog'']))
         (voc_annotation_path ''out'' ''b.PNG'') = Some (XmlFile doc) \<and>
       map voc_box_text (findall ''object'' doc) =
         map (\<lambda>ann. map (\<lambda>v. Some (py_str v)) (corners ann)) anns \<and>
       map voc_box (findall ''object'' doc) = map (\<lambda>ann. map Inr (corners ann)) anns)"
proof (intro conjI)
  show d: "dirs example_fs ''img'' = Some [''notes.txt'', ''a.jpg'', ''b.PNG'']"
    by code_simp
  show w: "list_all (\<lambda>f. CHR ''/'' \<notin> set f) [''notes.txt'', ''a.jpg'', ''b.PNG'']"
    by simp
  show s: "snd (convert_to_voc ascii_int example_fs ''img'' ''ann'' ''out'' [''cat'', ''dog'']) = None"
    by code_simp
  show m: "''b.PNG'' \<in> set [''notes.txt'', ''a.jpg'', ''b.PNG'']"
    by simp
  show i: "image_extension ''b.PNG''"
    by code_simp
  show "\<exists>anns doc.
       parse_halcon_annotation ascii_int example_fs (annotation_path ''ann'' ''b.PNG'') = Inr anns \<and>
       files (fst (convert_to_voc ascii_int example_fs ''img'' ''ann'' ''out'' [''cat'', ''dog'']))
         (voc_annotation_path ''out'' ''b.PNG'') = Some (XmlFile doc) \<and>
       map voc_box_text (findall ''object'' doc) =
         map (\<lambda>ann. map (\<lambda>v. Some (py_str v)) (corners ann)) anns \<and>
       map voc_box (findall ''object'' doc) = map (\<lambda>ann. map Inr (corners ann)) anns"
    by (rule voc_boxes_roundtrip [OF d w s m i])
qed

end
